theory Spec2Isabelle
  imports Complex_Main
begin

section \<open>Python values the plugin relies on\<close>

text \<open>
  Exceptions are values. \<open>is_Exception\<close> is Python's \<open>isinstance(e, Exception)\<close>:
  the handlers of \<open>update\<close> and \<open>display\<close> are written \<open>except Exception\<close>, which
  lets \<open>KeyboardInterrupt\<close> and \<open>SystemExit\<close> through, while a bare \<open>except:\<close>
  catches everything.
\<close>

datatype exc =
    ValueError | TypeError | OverflowError | ZeroDivisionError | RuntimeError
  | KeyboardInterrupt | SystemExit

fun is_Exception :: "exc \<Rightarrow> bool" where
  "is_Exception KeyboardInterrupt = False"
| "is_Exception SystemExit = False"
| "is_Exception _ = True"

subsection \<open>\<open>datetime.date\<close>\<close>

text \<open>
  A \<open>date\<close> holds year, month and day. The constructor raises \<open>ValueError\<close> outside
  the proleptic Gregorian calendar of years 1 to 9999, comparison is that of the
  triples, and \<open>(a - b).days\<close> is the difference of the ordinals, computed as
  CPython's \<open>_ymd2ord\<close> does.
\<close>

datatype date = Date (year: int) (month: int) (day: int)

definition is_leap :: "int \<Rightarrow> bool" where
  "is_leap y = (y mod 4 = 0 \<and> (y mod 100 \<noteq> 0 \<or> y mod 400 = 0))"

definition days_in_month :: "int \<Rightarrow> int \<Rightarrow> int" where
  "days_in_month y m =
     (if m = 2 then (if is_leap y then 29 else 28)
      else if m = 4 \<or> m = 6 \<or> m = 9 \<or> m = 11 then 30 else 31)"

definition valid_date :: "date \<Rightarrow> bool" where
  "valid_date d =
     (1 \<le> year d \<and> year d \<le> 9999 \<and> 1 \<le> month d \<and> month d \<le> 12 \<and>
      1 \<le> day d \<and> day d \<le> days_in_month (year d) (month d))"

definition mk_date :: "int \<Rightarrow> int \<Rightarrow> int \<Rightarrow> exc + date" where
  "mk_date y m d = (if valid_date (Date y m d) then Inr (Date y m d) else Inl ValueError)"

definition days_before_year :: "int \<Rightarrow> int" where
  "days_before_year y =
     (y - 1) * 365 + (y - 1) div 4 - (y - 1) div 100 + (y - 1) div 400"

definition days_before_month :: "int \<Rightarrow> int \<Rightarrow> int" where
  "days_before_month y m =
     (if m = 1 then 0 else if m = 2 then 31 else
      (if is_leap y then 1 else 0) +
      (if m = 3 then 59 else if m = 4 then 90 else if m = 5 then 120
       else if m = 6 then 151 else if m = 7 then 181 else if m = 8 then 212
       else if m = 9 then 243 else if m = 10 then 273 else if m = 11 then 304
       else 334))"

definition toordinal :: "date \<Rightarrow> int" where
  "toordinal d = days_before_year (year d) + days_before_month (year d) (month d) + day d"

definition date_less :: "date \<Rightarrow> date \<Rightarrow> bool" where
  "date_less a b =
     (year a < year b \<or> (year a = year b \<and>
       (month a < month b \<or> (month a = month b \<and> day a < day b))))"

definition date_le :: "date \<Rightarrow> date \<Rightarrow> bool" where
  "date_le a b = (date_less a b \<or> a = b)"

definition days_between :: "date \<Rightarrow> date \<Rightarrow> int" where
  \<comment> \<open>\<open>(a - b).days\<close>\<close>
  "days_between a b = toordinal a - toordinal b"

section \<open>The schedule and the countdown calculator\<close>

type_synonym schedule_entry = "int \<times> int \<times> int \<times> string \<times> string"

definition OLYMPICS_DATES :: "schedule_entry list" where
  "OLYMPICS_DATES =
     [(2026, 2, 6, ''winter'', ''Milan-Cortina''),
      (2026, 2, 22, ''winter'', ''Milan-Cortina''),
      (2028, 7, 14, ''summer'', ''Los Angeles''),
      (2028, 7, 30, ''summer'', ''Los Angeles''),
      (2030, 2, 8, ''winter'', ''TBD''),
      (2030, 2, 24, ''winter'', ''TBD''),
      (2032, 7, 23, ''summer'', ''Brisbane''),
      (2032, 8, 8, ''summer'', ''Brisbane'')]"

record event =
  ev_opening :: date
  ev_closing :: date
  ev_type :: string
  ev_location :: string

text \<open>
  The first loop of \<open>_get_next_olympics\<close>: the entries are taken two at a time, an
  odd entry at the end is dropped, and \<open>date(...)\<close> may raise.
\<close>

fun olympics_events :: "schedule_entry list \<Rightarrow> exc + event list" where
  "olympics_events ((oy, om, od, ot, ol) # (cy, cm, cd, ct, cl) # rest) =
     (case mk_date oy om od of Inl e \<Rightarrow> Inl e | Inr od' \<Rightarrow>
      (case mk_date cy cm cd of Inl e \<Rightarrow> Inl e | Inr cd' \<Rightarrow>
       (case olympics_events rest of Inl e \<Rightarrow> Inl e | Inr es \<Rightarrow>
          Inr (\<lparr>ev_opening = od', ev_closing = cd', ev_type = ot, ev_location = ol\<rparr> # es))))"
| "olympics_events _ = Inr []"

text \<open>The second loop: the first event not yet over, and whether it is under way.\<close>

fun find_event :: "date \<Rightarrow> event list \<Rightarrow> (event \<times> bool) option" where
  "find_event today [] = None"
| "find_event today (e # es) =
     (if date_less today (ev_opening e) then Some (e, False)
      else if date_le (ev_opening e) today \<and> date_le today (ev_closing e) then Some (e, True)
      else find_event today es)"

definition get_next_olympics_on ::
  "schedule_entry list \<Rightarrow> date \<Rightarrow> exc + (event option \<times> bool)" where
  "get_next_olympics_on sched today =
     (case olympics_events sched of Inl e \<Rightarrow> Inl e | Inr events \<Rightarrow>
      (case find_event today events of
         Some (ev, active) \<Rightarrow> Inr (Some ev, active)
       | None \<Rightarrow> if events \<noteq> [] then Inr (Some (last events), False)
                 else Inr (None, False)))"

text \<open>
  \<open>_calculate_days_until\<close> reads the clock a second time after \<open>_get_next_olympics\<close>
  has read it: \<open>today1\<close> and \<open>today2\<close> are the two readings.
\<close>

definition calculate_days_until_on ::
  "schedule_entry list \<Rightarrow> date \<Rightarrow> date \<Rightarrow> exc + (int \<times> bool \<times> event option \<times> string)" where
  "calculate_days_until_on sched today1 today2 =
     (case get_next_olympics_on sched today1 of Inl e \<Rightarrow> Inl e
      | Inr (olympics_info, is_active) \<Rightarrow>
        (case olympics_info of
           None \<Rightarrow> Inr (0, False, None, ''opening'')
         | Some ev \<Rightarrow>
             if is_active then Inr (days_between (ev_closing ev) today2, True, Some ev, ''closing'')
             else Inr (days_between (ev_opening ev) today2, False, Some ev, ''opening'')))"

definition get_next_olympics :: "date \<Rightarrow> exc + (event option \<times> bool)" where
  "get_next_olympics = get_next_olympics_on OLYMPICS_DATES"

definition calculate_days_until ::
  "date \<Rightarrow> date \<Rightarrow> exc + (int \<times> bool \<times> event option \<times> string)" where
  "calculate_days_until = calculate_days_until_on OLYMPICS_DATES"

section \<open>Configuration values\<close>

text \<open>
  The configuration comes from JSON, so a configured value is any of the following. A
  float is its exact rational value or one of the three special values; \<open>bool\<close> is a
  subclass of \<open>int\<close> in Python, which \<open>isinstance\<close> and the comparisons below respect.
\<close>

datatype pyfloat = Finite rat | PosInf | NegInf | NaN

datatype pyval =
    PNone | PBool bool | PInt int | PFloat pyfloat | PStr string
  | PList "pyval list" | PTuple "pyval list" | PDict "(string \<times> pyval) list"

definition py_trunc :: "rat \<Rightarrow> int" where
  \<comment> \<open>\<open>int(x)\<close> of a finite float: truncation towards zero\<close>
  "py_trunc q = (if 0 \<le> q then \<lfloor>q\<rfloor> else \<lceil>q\<rceil>)"

text \<open>
  \<open>int(c)\<close>. The parser of integer literals in strings is Python's own and is taken
  as the parameter \<open>int_of_str\<close> (\<open>None\<close> where \<open>int\<close> raises \<open>ValueError\<close>).
\<close>

fun py_int :: "(string \<Rightarrow> int option) \<Rightarrow> pyval \<Rightarrow> exc + int" where
  "py_int int_of_str (PInt i) = Inr i"
| "py_int int_of_str (PBool b) = Inr (if b then 1 else 0)"
| "py_int int_of_str (PFloat (Finite q)) = Inr (py_trunc q)"
| "py_int int_of_str (PFloat NaN) = Inl ValueError"
| "py_int int_of_str (PFloat PosInf) = Inl OverflowError"
| "py_int int_of_str (PFloat NegInf) = Inl OverflowError"
| "py_int int_of_str (PStr s) =
     (case int_of_str s of Some i \<Rightarrow> Inr i | None \<Rightarrow> Inl ValueError)"
| "py_int int_of_str PNone = Inl TypeError"
| "py_int int_of_str (PList xs) = Inl TypeError"
| "py_int int_of_str (PTuple xs) = Inl TypeError"
| "py_int int_of_str (PDict kvs) = Inl TypeError"

fun py_iter :: "pyval \<Rightarrow> exc + pyval list" where
  \<comment> \<open>the elements a \<open>for\<close> loop or \<open>tuple(...)\<close> sees\<close>
  "py_iter (PList xs) = Inr xs"
| "py_iter (PTuple xs) = Inr xs"
| "py_iter (PStr s) = Inr (map (\<lambda>c. PStr [c]) s)"
| "py_iter (PDict kvs) = Inr (map (\<lambda>kv. PStr (fst kv)) kvs)"
| "py_iter _ = Inl TypeError"

fun ints_of :: "(string \<Rightarrow> int option) \<Rightarrow> pyval list \<Rightarrow> exc + int list" where
  \<comment> \<open>\<open>int(c) for c in xs\<close>, stopping at the first conversion that raises\<close>
  "ints_of int_of_str [] = Inr []"
| "ints_of int_of_str (c # cs) =
     (case py_int int_of_str c of Inl e \<Rightarrow> Inl e | Inr i \<Rightarrow>
      (case ints_of int_of_str cs of Inl e \<Rightarrow> Inl e | Inr is \<Rightarrow> Inr (i # is)))"

definition parse_color :: "(string \<Rightarrow> int option) \<Rightarrow> pyval \<Rightarrow> exc + pyval" where
  "parse_color int_of_str raw =
     (case (case py_iter raw of Inl e \<Rightarrow> Inl e | Inr cs \<Rightarrow> ints_of int_of_str cs) of
        Inr is \<Rightarrow> Inr (PTuple (map PInt is))
      | Inl e \<Rightarrow>
          if e = ValueError \<or> e = TypeError then
            (case py_iter raw of
               Inr cs \<Rightarrow> Inr (PTuple cs)
             | Inl e' \<Rightarrow> if e' = TypeError then Inr raw else Inl e')
          else Inl e)"

fun is_int_or_float :: "pyval \<Rightarrow> bool" where
  \<comment> \<open>\<open>isinstance(v, (int, float))\<close>\<close>
  "is_int_or_float (PInt i) = True"
| "is_int_or_float (PBool b) = True"
| "is_int_or_float (PFloat f) = True"
| "is_int_or_float _ = False"

fun le_zero :: "pyval \<Rightarrow> bool" where
  \<comment> \<open>\<open>v <= 0\<close> for an int or a float; every comparison with NaN is false\<close>
  "le_zero (PInt i) = (i \<le> 0)"
| "le_zero (PBool b) = (\<not> b)"
| "le_zero (PFloat (Finite q)) = (q \<le> 0)"
| "le_zero (PFloat NegInf) = True"
| "le_zero (PFloat PosInf) = False"
| "le_zero (PFloat NaN) = False"
| "le_zero _ = False"

section \<open>Images, fonts and the host display\<close>

text \<open>
  A PIL image is known by its size and mode; its pixels are recorded as the way they
  were produced. Library calls that can raise do so as the parameter \<open>pil_raises\<close>
  says.
\<close>

type_synonym ellipse = "(rat \<times> rat \<times> rat \<times> rat) \<times> (int \<times> int \<times> int) \<times> int"

datatype picture = Loaded string | Resampled picture | Ellipses "ellipse list"

record image =
  img_size :: "int \<times> int"
  img_mode :: string
  img_pixels :: picture

datatype pil_call =
    New "int \<times> int" | Ellipse ellipse | Resize image "int \<times> int" | Convert image

text \<open>
  What the program needs from the Python runtime and from PIL: \<open>rnd\<close> rounds the
  exact result of a float operation to the float the machine returns.
\<close>

record runtime =
  rnd :: "rat \<Rightarrow> rat"
  int_of_str :: "string \<Rightarrow> int option"
  pil_raises :: "pil_call \<Rightarrow> exc option"

record font =
  font_name :: string
  font_size :: "int option"  \<comment> \<open>\<open>None\<close>: the font has no \<open>size\<close> attribute (a BDF font)\<close>

datatype dm_call =
    Clear
  | Paste image "int \<times> int" bool  \<comment> \<open>image, position, pasted with itself as the mask\<close>
  | DrawText string int int pyval "font option" "bool option" "bool option"
      \<comment> \<open>text, x, y, color, and the keywords \<open>font\<close>, \<open>small_font\<close>, \<open>centered\<close> when given\<close>
  | UpdateDisplay

text \<open>
  The host's display manager. Whether a drawing call raises is up to the host and may
  depend on the calls issued before it.
\<close>

record display_manager =
  dm_width :: int
  dm_height :: int
  regular_font :: font
  small_font :: font
  extra_small_font :: font
  get_text_width :: "string \<Rightarrow> font \<Rightarrow> exc + rat"
  dm_raises :: "dm_call list \<Rightarrow> dm_call \<Rightarrow> exc option"

definition call_dm :: "display_manager \<Rightarrow> dm_call \<Rightarrow> dm_call list \<Rightarrow> exc option \<times> dm_call list" where
  \<comment> \<open>issue one call: it joins the calls made so far, and it may raise\<close>
  "call_dm dm c calls = (dm_raises dm calls c, calls @ [c])"

section \<open>The plugin\<close>

datatype log_entry =
    Info string | Debug string | Warning string
  | Error string exc  \<comment> \<open>the text before the exception, and the exception\<close>

record plugin =
  text_color :: pyval
  logo_size :: pyval
  days_until :: int
  is_olympics_active :: bool
  current_olympics :: "event option"
  countdown_type :: string
  logo_image :: "image option"
  last_calculated_date :: "date option"
  last_displayed_message :: "string option"
  logger :: "log_entry list"

subsection \<open>\<open>__init__\<close>\<close>

definition possible_names :: "string list" where
  "possible_names =
     [''olympics-logo.png'', ''olympics logo.png'', ''olympics-icon.png'', ''logo.png'',
      ''assets/olympics-logo.png'', ''assets/logo.png'']"

text \<open>
  The plugin directory: a name is absent, or opening it gives an image or raises.
\<close>

type_synonym plugin_dir = "string \<Rightarrow> (exc + image) option"

fun first_existing :: "plugin_dir \<Rightarrow> string list \<Rightarrow> (exc + image) option" where
  "first_existing files [] = None"
| "first_existing files (name # names) =
     (case files name of Some r \<Rightarrow> Some r | None \<Rightarrow> first_existing files names)"

definition load_logo_image :: "plugin_dir \<Rightarrow> exc + (image option \<times> log_entry)" where
  "load_logo_image files =
     (case first_existing files possible_names of
        Some (Inr img) \<Rightarrow> Inr (Some img, Info ''Loaded Olympics logo image'')
      | Some (Inl e) \<Rightarrow>
          if is_Exception e
          then Inr (None, Warning ''Error loading logo image, will use programmatic drawing'')
          else Inl e
      | None \<Rightarrow>
          Inr (None, Debug ''Olympics logo image not found, will use programmatic drawing''))"

type_synonym config = "string \<Rightarrow> pyval option"

definition init :: "runtime \<Rightarrow> plugin_dir \<Rightarrow> config \<Rightarrow> exc + plugin" where
  "init rt files config =
     (case parse_color (int_of_str rt)
             (case config ''text_color'' of
                None \<Rightarrow> PList [PInt 255, PInt 255, PInt 255] | Some v \<Rightarrow> v) of
        Inl e \<Rightarrow> Inl e
      | Inr color \<Rightarrow>
         (case load_logo_image files of
            Inl e \<Rightarrow> Inl e
          | Inr (logo, entry) \<Rightarrow>
              Inr \<lparr>text_color = color,
                   logo_size = (case config ''logo_size'' of None \<Rightarrow> PNone | Some v \<Rightarrow> v),
                   days_until = 0,
                   is_olympics_active = False,
                   current_olympics = None,
                   countdown_type = ''opening'',
                   logo_image = logo,
                   last_calculated_date = None,
                   last_displayed_message = None,
                   logger = [entry, Info ''Olympics countdown plugin initialized'']\<rparr>))"

subsection \<open>\<open>validate_config\<close>\<close>

text \<open>
  \<open>parent_ok\<close> is the result of the base class's validation.
\<close>

definition validate_config :: "runtime \<Rightarrow> bool \<Rightarrow> plugin \<Rightarrow> exc + bool" where
  "validate_config rt parent_ok self =
     (if \<not> parent_ok then Inr False
      else case text_color self of
        PTuple cs \<Rightarrow>
          if length cs \<noteq> 3 then Inr False
          else (case ints_of (int_of_str rt) cs of
                  Inl e \<Rightarrow> if e = ValueError \<or> e = TypeError then Inr False else Inl e
                | Inr color_ints \<Rightarrow>
                    if \<not> list_all (\<lambda>c. 0 \<le> c \<and> c \<le> 255) color_ints then Inr False
                    else if logo_size self \<noteq> PNone \<and>
                            (\<not> is_int_or_float (logo_size self) \<or> le_zero (logo_size self))
                    then Inr False
                    else Inr True)
      | _ \<Rightarrow> Inr False)"

subsection \<open>Strings\<close>

definition digit_char :: "nat \<Rightarrow> char" where
  "digit_char d = char_of (48 + d)"

function str_nat :: "nat \<Rightarrow> string" where
  "str_nat n = (if n < 10 then [digit_char n] else str_nat (n div 10) @ [digit_char (n mod 10)])"
  by pat_completeness auto
termination
  by (relation "measure id") auto

declare str_nat.simps [simp del]

definition str_int :: "int \<Rightarrow> string" where
  \<comment> \<open>\<open>f"{i}"\<close> for an int\<close>
  "str_int i = (if i < 0 then CHR ''-'' # str_nat (nat (- i)) else str_nat (nat i))"

definition upper_char :: "char \<Rightarrow> char" where
  "upper_char c =
     (if 97 \<le> (of_char c :: nat) \<and> (of_char c :: nat) \<le> 122
      then char_of ((of_char c :: nat) - 32) else c)"

definition upper :: "string \<Rightarrow> string" where
  \<comment> \<open>\<open>str.upper()\<close> on the ASCII strings of the schedule\<close>
  "upper s = map upper_char s"

subsection \<open>\<open>_calculate_text_layout\<close>\<close>

record layout =
  lay_font :: font
  line_height :: int
  total_text_height :: int
  start_y :: int
  use_small_font :: bool

definition test_text :: string where
  "test_text = ''0123456789ABCDEFGHIJKLMNOPQRSTUVWXYZ''"

definition font_options :: "display_manager \<Rightarrow> (font \<times> bool) list" where
  "font_options dm =
     [(regular_font dm, False), (small_font dm, True), (extra_small_font dm, True)]"

text \<open>
  The estimated width of one line in a font: the measured width of the test text
  divided by its 36 characters, times the length of the line, both in float
  arithmetic; where measuring raises, the integer fallback width is used.
\<close>

definition line_width :: "runtime \<Rightarrow> display_manager \<Rightarrow> font \<Rightarrow> bool \<Rightarrow> string \<Rightarrow> rat" where
  "line_width rt dm f use_small line =
     (case get_text_width dm test_text f of
        Inr w \<Rightarrow> rnd rt (of_nat (length line) * rnd rt (w / 36))
      | Inl e \<Rightarrow> of_nat (length line) * (if use_small then 6 else 8))"

definition max_line_width ::
  "runtime \<Rightarrow> display_manager \<Rightarrow> font \<Rightarrow> bool \<Rightarrow> string list \<Rightarrow> exc + rat" where
  \<comment> \<open>\<open>max(... for line in lines)\<close> raises on no lines\<close>
  "max_line_width rt dm f use_small lines =
     (case lines of
        [] \<Rightarrow> Inl ValueError
      | l # ls \<Rightarrow> Inr (fold (\<lambda>line m. max m (line_width rt dm f use_small line)) ls
                        (line_width rt dm f use_small l)))"

definition font_line_height :: "font \<Rightarrow> bool \<Rightarrow> int" where
  "font_line_height f use_small =
     (case font_size f of Some s \<Rightarrow> s + 2 | None \<Rightarrow> if use_small then 8 else 10)"

text \<open>
  The loop over the font options; the state is \<open>best_font\<close> (\<open>None\<close> until a font is
  taken), \<open>best_line_height\<close>, \<open>best_total_height\<close> and \<open>best_use_small\<close>.
\<close>

type_synonym best = "font option \<times> int \<times> int \<times> bool"

fun choose_font ::
  "runtime \<Rightarrow> display_manager \<Rightarrow> int \<Rightarrow> string list \<Rightarrow> (font \<times> bool) list \<Rightarrow> best \<Rightarrow> exc + best" where
  "choose_font rt dm available_text_width lines [] best = Inr best"
| "choose_font rt dm available_text_width lines ((f, use_small) # options)
       (best_font, best_line_height, best_total_height, best_use_small) =
     (case max_line_width rt dm f use_small lines of
        Inl e \<Rightarrow> Inl e
      | Inr w \<Rightarrow>
          if w > of_int available_text_width
          then choose_font rt dm available_text_width lines options
                 (best_font, best_line_height, best_total_height, best_use_small)
          else if best_font = None \<or> font_line_height f use_small > best_line_height
          then choose_font rt dm available_text_width lines options
                 (Some f, font_line_height f use_small,
                  int (length lines) * font_line_height f use_small, use_small)
          else choose_font rt dm available_text_width lines options
                 (best_font, best_line_height, best_total_height, best_use_small))"

definition calculate_text_layout ::
  "runtime \<Rightarrow> display_manager \<Rightarrow> int \<Rightarrow> int \<Rightarrow> string list \<Rightarrow> exc + layout" where
  "calculate_text_layout rt dm w h lines =
     (let left_half_width = w div 2;
          right_half_width = w - left_half_width;
          available_text_width = right_half_width - 4;
          available_text_height = h - 4;
          num_lines = int (length lines)
      in case choose_font rt dm available_text_width lines (font_options dm)
                (None, 8, 0, False) of
           Inl e \<Rightarrow> Inl e
         | Inr (found, found_line_height, found_total_height, found_use_small) \<Rightarrow>
            (let (best_font, best_line_height, best_total_height, best_use_small) =
                   (case found of
                      None \<Rightarrow> (extra_small_font dm, 8, num_lines * 8, True)
                    | Some f \<Rightarrow> (f, found_line_height, found_total_height, found_use_small))
             in if best_total_height > available_text_height then
                  (if best_total_height = 0 then Inl ZeroDivisionError
                   else
                     (let scale_factor =
                            rnd rt (of_int available_text_height / of_int best_total_height);
                          scaled_line_height =
                            py_trunc (rnd rt (of_int best_line_height * scale_factor));
                          scaled_total_height = scaled_line_height * num_lines
                      in Inr \<lparr>lay_font = best_font, line_height = scaled_line_height,
                              total_text_height = scaled_total_height,
                              start_y = (h - scaled_total_height) div 2,
                              use_small_font = best_use_small\<rparr>))
                else Inr \<lparr>lay_font = best_font, line_height = best_line_height,
                          total_text_height = best_total_height,
                          start_y = (h - best_total_height) div 2,
                          use_small_font = best_use_small\<rparr>))"

subsection \<open>The logo\<close>

definition ring_colors :: "(int \<times> int \<times> int) list" where
  "ring_colors = [(0, 129, 200), (0, 0, 0), (255, 20, 24), (255, 195, 0), (0, 158, 96)]"

definition ring :: "runtime \<Rightarrow> rat \<Rightarrow> int \<Rightarrow> int \<Rightarrow> (int \<times> int \<times> int) \<Rightarrow> ellipse" where
  \<comment> \<open>the bounding box around a float \<open>x\<close> and an int \<open>y\<close>, the colour and the line width\<close>
  "ring rt x y ring_radius color =
     ((rnd rt (x - of_int ring_radius), of_int (y - ring_radius),
       rnd rt (x + of_int ring_radius), of_int (y + ring_radius)),
      color, max 1 (ring_radius div 8))"

fun first_raise :: "runtime \<Rightarrow> pil_call list \<Rightarrow> exc option" where
  "first_raise rt [] = None"
| "first_raise rt (c # cs) =
     (case pil_raises rt c of Some e \<Rightarrow> Some e | None \<Rightarrow> first_raise rt cs)"

definition draw_olympics_rings_programmatic :: "runtime \<Rightarrow> int \<Rightarrow> int \<Rightarrow> exc + image" where
  "draw_olympics_rings_programmatic rt w h =
     (let ring_radius = min w h div 6;
          center_x = w div 2;
          center_y = h div 2;
          top_y = center_y - ring_radius;
          bottom_y = center_y + ring_radius;
          top_row = map (\<lambda>(i, color).
                      ring rt (rnd rt (of_int (center_x - ring_radius)
                                       + rnd rt (of_int (i * ring_radius) * (3 / 2))))
                           top_y ring_radius color)
                    (zip [0, 1, 2] (take 3 ring_colors));
          bottom_row = map (\<lambda>(i, color).
                      ring rt (rnd rt (of_int center_x
                                       + rnd rt (of_int (i * ring_radius) * (3 / 2))))
                           bottom_y ring_radius color)
                    (zip [0, 1] (drop 3 ring_colors))
      in case first_raise rt (New (w, h) # map Ellipse (top_row @ bottom_row)) of
           Some e \<Rightarrow> Inl e
         | None \<Rightarrow> Inr \<lparr>img_size = (w, h), img_mode = ''RGBA'',
                         img_pixels = Ellipses (top_row @ bottom_row)\<rparr>)"

text \<open>
  The size \<open>_get_logo_image\<close> asks \<open>resize\<close> for: both dimensions of the image times
  the smaller of the two ratios, truncated. The two \<open>resize\<close> calls of the source differ
  only in where the PIL version keeps the name of the filter, so they are one call here.
\<close>

definition scaled_size :: "runtime \<Rightarrow> int \<times> int \<Rightarrow> int \<Rightarrow> int \<Rightarrow> exc + int \<times> int" where
  "scaled_size rt sz w h =
     (let (img_width, img_height) = sz
      in if img_width = 0 \<or> img_height = 0 then Inl ZeroDivisionError
         else
           (let width_ratio = rnd rt (of_int w / of_int img_width);
                height_ratio = rnd rt (of_int h / of_int img_height);
                scale_ratio = min width_ratio height_ratio;
                new_width = py_trunc (rnd rt (of_int img_width * scale_ratio));
                new_height = py_trunc (rnd rt (of_int img_height * scale_ratio))
            in Inr (new_width, new_height)))"

definition get_logo_image :: "runtime \<Rightarrow> plugin \<Rightarrow> int \<Rightarrow> int \<Rightarrow> exc + image" where
  "get_logo_image rt self w h =
     (case logo_image self of
        Some img \<Rightarrow>
          (case scaled_size rt (img_size img) w h of
             Inl e \<Rightarrow> Inl e
           | Inr new_size \<Rightarrow>
              (case pil_raises rt (Resize img new_size) of
                 Some e \<Rightarrow> Inl e
               | None \<Rightarrow>
                  (let resized = img\<lparr>img_size := new_size,
                                     img_pixels := Resampled (img_pixels img)\<rparr>
                   in if img_mode resized \<noteq> ''RGBA'' \<and> img_mode img = ''RGBA''
                      then (case pil_raises rt (Convert resized) of
                              Some e \<Rightarrow> Inl e
                            | None \<Rightarrow> Inr (resized\<lparr>img_mode := ''RGBA''\<rparr>))
                      else Inr resized)))
      | None \<Rightarrow> draw_olympics_rings_programmatic rt w h)"

subsection \<open>\<open>update\<close>\<close>

text \<open>
  The result of an entry point is the plugin afterwards and the exception that leaves
  the call, if any. \<open>update\<close> reads the clock a third time for its log line.
\<close>

definition update_on ::
  "schedule_entry list \<Rightarrow> date \<Rightarrow> date \<Rightarrow> date \<Rightarrow> plugin \<Rightarrow> plugin \<times> exc option" where
  "update_on sched today1 today2 today3 self =
     (case calculate_days_until_on sched today1 today2 of
        Inl e \<Rightarrow>
          if is_Exception e
          then (self\<lparr>logger := logger self @ [Error ''Error updating countdown: '' e]\<rparr>, None)
          else (self, Some e)
      | Inr (days, is_active, olympics_info, ctype) \<Rightarrow>
          (let self1 = self\<lparr>days_until := days, is_olympics_active := is_active,
                             current_olympics := olympics_info, countdown_type := ctype\<rparr>
           in if last_calculated_date self1 \<noteq> Some today3 then
                (self1\<lparr>logger := logger self1 @
                    [case olympics_info of
                       Some ev \<Rightarrow>
                         if is_active
                         then Info (''Olympics '' @ ev_type ev @ '' '' @ ev_location ev
                                    @ '' is active. Days until closing: '' @ str_int days)
                         else Info (''Days until '' @ ev_type ev @ '' Olympics ''
                                    @ ev_location ev @ '' opening: '' @ str_int days)
                     | None \<Rightarrow> Warning ''No upcoming Olympics found''],
                  last_calculated_date := Some today3\<rparr>, None)
              else (self1, None)))"

definition update :: "date \<Rightarrow> date \<Rightarrow> date \<Rightarrow> plugin \<Rightarrow> plugin \<times> exc option" where
  "update = update_on OLYMPICS_DATES"

subsection \<open>\<open>display\<close>\<close>

definition hasattr_days_until :: "plugin \<Rightarrow> bool" where
  \<comment> \<open>\<open>__init__\<close> assigns \<open>days_until\<close>, so every plugin has the attribute\<close>
  "hasattr_days_until self = True"

definition message_and_lines :: "plugin \<Rightarrow> string \<times> string list" where
  "message_and_lines self =
     (case current_olympics self of
        None \<Rightarrow> (''NO OLYMPICS FOUND'', [''NO OLYMPICS'', ''FOUND''])
      | Some ev \<Rightarrow>
          if is_olympics_active self then
            (if days_until self = 0
             then (''OLYMPICS CLOSING'', [''OLYMPICS'', ''CLOSING'', ''TODAY''])
             else (str_int (days_until self) @ '' DAYS UNTIL CLOSING'',
                   [str_int (days_until self), ''DAYS UNTIL'', ''CLOSING'']))
          else
            (if days_until self = 0
             then (''OLYMPICS OPENING TODAY'', [''OLYMPICS'', ''OPENING'', ''TODAY''])
             else (str_int (days_until self) @ '' DAYS UNTIL '' @ upper (ev_type ev)
                     @ '' OLYMPICS'',
                   [str_int (days_until self), ''DAYS UNTIL'', upper (ev_type ev),
                    ''OLYMPICS''])))"

definition line_call ::
  "display_manager \<Rightarrow> plugin \<Rightarrow> layout \<Rightarrow> int \<Rightarrow> int \<Rightarrow> string \<Rightarrow> dm_call" where
  \<comment> \<open>the \<open>draw_text\<close> call for line \<open>i\<close>\<close>
  "line_call dm self lay center_x i line =
     (let text_y = start_y lay + i * line_height lay
      in if lay_font lay = extra_small_font dm
         then DrawText line center_x text_y (text_color self)
                (Some (lay_font lay)) None (Some True)
         else DrawText line center_x text_y (text_color self)
                None (Some (use_small_font lay)) (Some True))"

fun draw_lines ::
  "display_manager \<Rightarrow> plugin \<Rightarrow> layout \<Rightarrow> int \<Rightarrow> (int \<times> string) list \<Rightarrow> dm_call list
     \<Rightarrow> exc option \<times> dm_call list" where
  "draw_lines dm self lay center_x [] calls = (None, calls)"
| "draw_lines dm self lay center_x ((i, line) # rest) calls =
     (case call_dm dm (line_call dm self lay center_x i line) calls of
        (Some e, calls') \<Rightarrow> (Some e, calls')
      | (None, calls') \<Rightarrow> draw_lines dm self lay center_x rest calls')"

definition py_enumerate :: "'a list \<Rightarrow> (int \<times> 'a) list" where
  "py_enumerate xs = zip (map int [0..<length xs]) xs"

text \<open>
  The body of the \<open>try\<close> block of \<open>display\<close>: the exception it raises, if any, the
  plugin and the calls issued to the host. The shortened location of the source is
  computed and never used, and a PIL image is always true, so the test \<open>if logo_img\<close>
  always passes: neither appears here.
\<close>

definition display_body ::
  "runtime \<Rightarrow> display_manager \<Rightarrow> date \<Rightarrow> date \<Rightarrow> date \<Rightarrow> bool \<Rightarrow> plugin \<Rightarrow> dm_call list
     \<Rightarrow> exc option \<times> plugin \<times> dm_call list" where
  "display_body rt dm today1 today2 today3 force_clear self0 calls =
     (case (if \<not> hasattr_days_until self0 then update today1 today2 today3 self0
            else (self0, None)) of
        (self, Some e) \<Rightarrow> (Some e, self, calls)
      | (self, None) \<Rightarrow>
     (let w = dm_width dm;
          h = dm_height dm;
          (message, lines) = message_and_lines self
      in if \<not> force_clear \<and> last_displayed_message self = Some message
         then (None, self, calls)
         else
          (case call_dm dm Clear calls of
             (Some e, calls1) \<Rightarrow> (Some e, self, calls1)
           | (None, calls1) \<Rightarrow>
          (let left_half_width = w div 2;
               right_half_width = w - left_half_width;
               right_half_x = left_half_width;
               logo_margin = 2;
               logo_width = left_half_width - 2 * logo_margin;
               logo_height = h - 2 * logo_margin;
               logo_x = logo_margin;
               logo_y = logo_margin
           in case get_logo_image rt self logo_width logo_height of
                Inl e \<Rightarrow> (Some e, self, calls1)
              | Inr logo_img \<Rightarrow>
             (case call_dm dm (Paste logo_img (logo_x, logo_y) (img_mode logo_img = ''RGBA''))
                     calls1 of
                (Some e, calls2) \<Rightarrow> (Some e, self, calls2)
              | (None, calls2) \<Rightarrow>
             (case calculate_text_layout rt dm w h lines of
                Inl e \<Rightarrow> (Some e, self, calls2)
              | Inr lay \<Rightarrow>
             (case draw_lines dm self lay (right_half_x + right_half_width div 2)
                     (py_enumerate lines) calls2 of
                (Some e, calls3) \<Rightarrow> (Some e, self, calls3)
              | (None, calls3) \<Rightarrow>
             (case call_dm dm UpdateDisplay calls3 of
                (Some e, calls4) \<Rightarrow> (Some e, self, calls4)
              | (None, calls4) \<Rightarrow>
                 (None,
                  self\<lparr>last_displayed_message := Some message,
                       logger := logger self @ [Debug (''Displayed: '' @ message)]\<rparr>,
                  calls4)))))))))"

definition show_error :: "display_manager \<Rightarrow> dm_call list \<Rightarrow> dm_call list" where
  \<comment> \<open>the handler's attempt to draw the error text; whatever it raises is swallowed\<close>
  "show_error dm calls =
     (case call_dm dm Clear calls of
        (Some e, calls1) \<Rightarrow> calls1
      | (None, calls1) \<Rightarrow>
         (case call_dm dm (DrawText ''Countdown Error'' 5 15
                            (PTuple [PInt 255, PInt 0, PInt 0]) None None None) calls1 of
            (Some e, calls2) \<Rightarrow> calls2
          | (None, calls2) \<Rightarrow> snd (call_dm dm UpdateDisplay calls2)))"

definition display ::
  "runtime \<Rightarrow> display_manager \<Rightarrow> date \<Rightarrow> date \<Rightarrow> date \<Rightarrow> bool \<Rightarrow> plugin \<Rightarrow> dm_call list
     \<Rightarrow> plugin \<times> dm_call list \<times> exc option" where
  "display rt dm today1 today2 today3 force_clear self calls =
     (case display_body rt dm today1 today2 today3 force_clear self calls of
        (None, self', calls') \<Rightarrow> (self', calls', None)
      | (Some e, self', calls') \<Rightarrow>
          if is_Exception e
          then (self'\<lparr>logger := logger self' @ [Error ''Error displaying countdown: '' e]\<rparr>,
                show_error dm calls', None)
          else (self', calls', Some e))"

section \<open>Notions used to state the properties\<close>


fun drawn_texts :: "dm_call list \<Rightarrow> string list" where
  "drawn_texts [] = []"
| "drawn_texts (DrawText t x y c f s ce # cs) = t # drawn_texts cs"
| "drawn_texts (_ # cs) = drawn_texts cs"

definition positive_number :: "pyval \<Rightarrow> bool" where
  \<comment> \<open>an int or float greater than zero\<close>
  "positive_number v =
     (case v of PInt i \<Rightarrow> 0 < i | PBool b \<Rightarrow> b | PFloat (Finite q) \<Rightarrow> 0 < q
      | PFloat PosInf \<Rightarrow> True | _ \<Rightarrow> False)"

subsection \<open>A concrete panel\<close>

text \<open>
  A 128 by 32 panel whose fonts have sizes 8, 6 and 5 and average character widths 6, 4
  and 3, a runtime whose float operations are exact, and an empty plugin directory.
\<close>

definition exact_runtime :: runtime where
  "exact_runtime = \<lparr>rnd = (\<lambda>q. q), int_of_str = (\<lambda>s. None), pil_raises = (\<lambda>c. None)\<rparr>"

definition panel_fonts :: "font \<times> font \<times> font" where
  "panel_fonts =
     (\<lparr>font_name = ''regular'', font_size = Some 8\<rparr>,
      \<lparr>font_name = ''small'', font_size = Some 6\<rparr>,
      \<lparr>font_name = ''extra_small'', font_size = Some 5\<rparr>)"

definition panel :: "(dm_call list \<Rightarrow> dm_call \<Rightarrow> exc option) \<Rightarrow> display_manager" where
  "panel raises =
     \<lparr>dm_width = 128, dm_height = 32,
      regular_font = fst panel_fonts,
      small_font = fst (snd panel_fonts),
      extra_small_font = snd (snd panel_fonts),
      get_text_width = (\<lambda>t f. Inr (of_nat (length t) *
                          (if font_size f = Some 8 then 6
                           else if font_size f = Some 6 then 4 else 3))),
      dm_raises = raises\<rparr>"

definition no_files :: plugin_dir where
  "no_files = (\<lambda>name. None)"

definition default_plugin :: "image option \<Rightarrow> plugin" where
  \<comment> \<open>the plugin as \<open>__init__\<close> leaves it for an empty configuration, with the given logo\<close>
  "default_plugin logo =
     \<lparr>text_color = PTuple [PInt 255, PInt 255, PInt 255], logo_size = PNone,
      days_until = 0, is_olympics_active = False, current_olympics = None,
      countdown_type = ''opening'', logo_image = logo,
      last_calculated_date = None, last_displayed_message = None,
      logger = []\<rparr>"

definition counting_plugin :: plugin where
  \<comment> \<open>the default plugin after \<open>update()\<close> on 3 November 2026\<close>
  "counting_plugin =
     fst (update (Date 2026 11 3) (Date 2026 11 3) (Date 2026 11 3) (default_plugin None))"

definition clear_raises :: "exc \<Rightarrow> dm_call list \<Rightarrow> dm_call \<Rightarrow> exc option" where
  \<comment> \<open>a host whose \<open>clear\<close> raises and whose other calls work\<close>
  "clear_raises e calls c = (if c = Clear then Some e else None)"



section \<open>Calendar facts\<close>

lemma div_succ:
  fixes x n :: int
  assumes "0 < n"
  shows "(x + 1) div n = x div n + (if (x + 1) mod n = 0 then 1 else 0)"
proof -
  have r: "0 \<le> x mod n" "x mod n < n" using assms by simp_all
  have x: "x + 1 = n * (x div n) + (x mod n + 1)" by simp
  show ?thesis
  proof (cases "x mod n + 1 = n")
    case True
    note x
    also have "n * (x div n) + (x mod n + 1) = n * (x div n) + n" using True by simp
    also have "\<dots> = n * (x div n + 1) + 0" by (simp add: algebra_simps)
    finally have e: "x + 1 = n * (x div n + 1) + 0" .
    have "(x + 1) div n = x div n + 1"
      by (rule int_div_pos_eq[OF e]) (use assms in simp_all)
    moreover have "(x + 1) mod n = 0"
      by (rule int_mod_pos_eq[OF e]) (use assms in simp_all)
    ultimately show ?thesis by simp
  next
    case False
    then have lt: "x mod n + 1 < n" using r by simp
    have "(x + 1) div n = x div n"
      by (rule int_div_pos_eq[OF x]) (use lt r in simp_all)
    moreover have "(x + 1) mod n = x mod n + 1"
      by (rule int_mod_pos_eq[OF x]) (use lt r in simp_all)
    ultimately show ?thesis using r by simp
  qed
qed

lemma days_before_year_step:
  "days_before_year (y + 1) = days_before_year y + (if is_leap y then 366 else 365)"
proof -
  define p where "p = (y - 1) div 4"
  define q where "q = (y - 1) div 100"
  define r where "r = (y - 1) div 400"
  define p' where "p' = y div 4"
  define q' where "q' = y div 100"
  define r' where "r' = y div 400"
  have a: "p' = p + (if y mod 4 = 0 then 1 else 0)"
    unfolding p_def p'_def using div_succ[of 4 "y - 1"] by simp
  have b: "q' = q + (if y mod 100 = 0 then 1 else 0)"
    unfolding q_def q'_def using div_succ[of 100 "y - 1"] by simp
  have c: "r' = r + (if y mod 400 = 0 then 1 else 0)"
    unfolding r_def r'_def using div_succ[of 400 "y - 1"] by simp
  have d: "y mod 100 = 0 \<Longrightarrow> y mod 4 = 0"
    using mod_mod_cancel[of 4 100 y] by simp
  have e: "y mod 400 = 0 \<Longrightarrow> y mod 100 = 0"
    using mod_mod_cancel[of 100 400 y] by simp
  have l: "days_before_year (y + 1) = y * 365 + p' - q' + r'"
    by (simp add: days_before_year_def p'_def q'_def r'_def)
  have m: "days_before_year y = (y - 1) * 365 + p - q + r"
    by (simp add: days_before_year_def p_def q_def r_def)
  show ?thesis
  proof (cases "y mod 4 = 0")
    case False
    then show ?thesis using d e unfolding l m a b c is_leap_def
      by (auto simp: algebra_simps)
  next
    case True
    note t4 = this
    show ?thesis
    proof (cases "y mod 100 = 0")
      case False
      then show ?thesis using t4 e unfolding l m a b c is_leap_def
        by (auto simp: algebra_simps)
    next
      case True
      then show ?thesis using t4 unfolding l m a b c is_leap_def
        by (cases "y mod 400 = 0") (auto simp: algebra_simps)
    qed
  qed
qed

lemma days_before_year_mono: "y \<le> y' \<Longrightarrow> days_before_year y \<le> days_before_year y'"
proof (induction y' rule: int_ge_induct)
  case base
  show ?case by simp
next
  case (step i)
  then show ?case by (simp add: days_before_year_step)
qed

lemma day_of_year_bounds:
  assumes "valid_date d"
  shows "1 \<le> days_before_month (year d) (month d) + day d"
    and "days_before_month (year d) (month d) + day d
           \<le> (if is_leap (year d) then 366 else 365)"
  using assms unfolding valid_date_def days_before_month_def days_in_month_def
  by (auto split: if_splits)

lemma month_start_mono:
  assumes "1 \<le> m" "m < m'" "m' \<le> 12" "1 \<le> d" "d \<le> days_in_month y m"
  shows "days_before_month y m + d \<le> days_before_month y m'"
proof -
  have m: "m = 1 \<or> m = 2 \<or> m = 3 \<or> m = 4 \<or> m = 5 \<or> m = 6 \<or> m = 7 \<or> m = 8
           \<or> m = 9 \<or> m = 10 \<or> m = 11"
    using assms(1-3) by arith
  have m': "m' = 2 \<or> m' = 3 \<or> m' = 4 \<or> m' = 5 \<or> m' = 6 \<or> m' = 7 \<or> m' = 8
           \<or> m' = 9 \<or> m' = 10 \<or> m' = 11 \<or> m' = 12"
    using assms(1-3) by arith
  show ?thesis
    using m m' assms(2,5) unfolding days_before_month_def days_in_month_def
    by (elim disjE) (simp_all split: if_splits)
qed

lemma toordinal_strict_mono:
  assumes "valid_date a" "valid_date b" "date_less a b"
  shows "toordinal a < toordinal b"
proof -
  consider (y) "year a < year b"
    | (m) "year a = year b" "month a < month b"
    | (d) "year a = year b" "month a = month b" "day a < day b"
    using assms(3) unfolding date_less_def by blast
  then show ?thesis
  proof cases
    case y
    have "toordinal a \<le> days_before_year (year a + 1)"
      using day_of_year_bounds(2)[OF assms(1)]
      by (simp add: toordinal_def days_before_year_step)
    also have "\<dots> \<le> days_before_year (year b)"
      using y by (intro days_before_year_mono) simp
    also have "\<dots> < toordinal b"
      using day_of_year_bounds(1)[OF assms(2)] by (simp add: toordinal_def)
    finally show ?thesis .
  next
    case m
    have "days_before_month (year a) (month a) + day a \<le> days_before_month (year a) (month b)"
      using assms(1,2) m unfolding valid_date_def by (intro month_start_mono) auto
    moreover have "1 \<le> day b" using assms(2) unfolding valid_date_def by simp
    ultimately show ?thesis using m by (simp add: toordinal_def)
  next
    case d
    then show ?thesis by (simp add: toordinal_def)
  qed
qed

lemma date_less_iff_toordinal:
  assumes "valid_date a" "valid_date b"
  shows "date_less a b \<longleftrightarrow> toordinal a < toordinal b"
proof
  assume "date_less a b"
  then show "toordinal a < toordinal b" using assms by (intro toordinal_strict_mono)
next
  assume lt: "toordinal a < toordinal b"
  have "a \<noteq> b" using lt by auto
  moreover have "\<not> date_less b a"
    using toordinal_strict_mono[OF assms(2,1)] lt by auto
  ultimately show "date_less a b"
    unfolding date_less_def by (cases a; cases b) auto
qed

lemma date_le_iff_toordinal:
  assumes "valid_date a" "valid_date b"
  shows "date_le a b \<longleftrightarrow> toordinal a \<le> toordinal b"
proof -
  have "a = b \<longleftrightarrow> toordinal a = toordinal b"
    using date_less_iff_toordinal[OF assms] date_less_iff_toordinal[OF assms(2,1)]
    unfolding date_less_def by (cases a; cases b) auto
  then show ?thesis
    unfolding date_le_def using date_less_iff_toordinal[OF assms] by auto
qed

section \<open>The bundled schedule\<close>

lemma bundled_events:
  "olympics_events OLYMPICS_DATES = Inr
     [\<lparr>ev_opening = Date 2026 2 6, ev_closing = Date 2026 2 22, ev_type = ''winter'', ev_location = ''Milan-Cortina''\<rparr>,
      \<lparr>ev_opening = Date 2028 7 14, ev_closing = Date 2028 7 30, ev_type = ''summer'', ev_location = ''Los Angeles''\<rparr>,
      \<lparr>ev_opening = Date 2030 2 8, ev_closing = Date 2030 2 24, ev_type = ''winter'', ev_location = ''TBD''\<rparr>,
      \<lparr>ev_opening = Date 2032 7 23, ev_closing = Date 2032 8 8, ev_type = ''summer'', ev_location = ''Brisbane''\<rparr>]"
  by (simp add: OLYMPICS_DATES_def mk_date_def valid_date_def days_in_month_def is_leap_def)

lemma schedule_valid:
  "valid_date (Date 2026 2 6)" "valid_date (Date 2026 2 22)"
  "valid_date (Date 2028 7 14)" "valid_date (Date 2028 7 30)"
  "valid_date (Date 2030 2 8)" "valid_date (Date 2030 2 24)"
  "valid_date (Date 2032 7 23)" "valid_date (Date 2032 8 8)"
  by (simp_all add: valid_date_def days_in_month_def is_leap_def)

lemma schedule_ordinals:
  "toordinal (Date 2026 2 6) = 739653" "toordinal (Date 2026 2 22) = 739669"
  "toordinal (Date 2028 7 14) = 740542" "toordinal (Date 2028 7 30) = 740558"
  "toordinal (Date 2030 2 8) = 741116" "toordinal (Date 2030 2 24) = 741132"
  "toordinal (Date 2032 7 23) = 742012" "toordinal (Date 2032 8 8) = 742028"
  by (simp_all add: toordinal_def days_before_year_def days_before_month_def is_leap_def)

lemmas schedule_order =
  date_less_iff_toordinal[OF _ schedule_valid(1)] date_less_iff_toordinal[OF _ schedule_valid(3)]
  date_less_iff_toordinal[OF _ schedule_valid(5)] date_less_iff_toordinal[OF _ schedule_valid(7)]
  date_le_iff_toordinal[OF schedule_valid(1)] date_le_iff_toordinal[OF schedule_valid(3)]
  date_le_iff_toordinal[OF schedule_valid(5)] date_le_iff_toordinal[OF schedule_valid(7)]
  date_le_iff_toordinal[OF _ schedule_valid(2)] date_le_iff_toordinal[OF _ schedule_valid(4)]
  date_le_iff_toordinal[OF _ schedule_valid(6)] date_le_iff_toordinal[OF _ schedule_valid(8)]
  date_less_iff_toordinal[OF schedule_valid(8)]

lemma get_next_olympics_table:
  assumes "valid_date today"
  shows "get_next_olympics today = Inr
     (if toordinal today \<le> 739669 then
        (Some \<lparr>ev_opening = Date 2026 2 6, ev_closing = Date 2026 2 22, ev_type = ''winter'', ev_location = ''Milan-Cortina''\<rparr>,
         739653 \<le> toordinal today)
      else if toordinal today \<le> 740558 then
        (Some \<lparr>ev_opening = Date 2028 7 14, ev_closing = Date 2028 7 30, ev_type = ''summer'', ev_location = ''Los Angeles''\<rparr>,
         740542 \<le> toordinal today)
      else if toordinal today \<le> 741132 then
        (Some \<lparr>ev_opening = Date 2030 2 8, ev_closing = Date 2030 2 24, ev_type = ''winter'', ev_location = ''TBD''\<rparr>,
         741116 \<le> toordinal today)
      else
        (Some \<lparr>ev_opening = Date 2032 7 23, ev_closing = Date 2032 8 8, ev_type = ''summer'', ev_location = ''Brisbane''\<rparr>,
         742012 \<le> toordinal today \<and> toordinal today \<le> 742028))"
  unfolding get_next_olympics_def get_next_olympics_on_def
  using assms
  by (simp add: bundled_events schedule_order schedule_ordinals) 

lemma calculate_days_until_unfold:
  "calculate_days_until today1 today2 =
     (case get_next_olympics today1 of Inl e \<Rightarrow> Inl e
      | Inr (olympics_info, is_active) \<Rightarrow>
        (case olympics_info of
           None \<Rightarrow> Inr (0, False, None, ''opening'')
         | Some ev \<Rightarrow>
             if is_active then Inr (days_between (ev_closing ev) today2, True, Some ev, ''closing'')
             else Inr (days_between (ev_opening ev) today2, False, Some ev, ''opening'')))"
  by (simp add: calculate_days_until_def calculate_days_until_on_def get_next_olympics_def)

section \<open>The countdown calculator\<close>

text \<open>
  C1. When today is strictly before the opening date of every event of the bundled
  schedule, \<open>_calculate_days_until\<close> returns the number of days from today to the
  opening of the first event, which is positive, with \<open>is_active\<close> false and the
  countdown type \<open>opening\<close>.
\<close>

theorem days_until_before_every_opening:
  assumes "valid_date today"
      and "olympics_events OLYMPICS_DATES = Inr (first # rest)"
      and "\<forall>e \<in> set (first # rest). date_less today (ev_opening e)"
  shows "calculate_days_until today today =
           Inr (days_between (ev_opening first) today, False, Some first, ''opening'')
         \<and> 0 < days_between (ev_opening first) today"
proof -
  have first: "first = \<lparr>ev_opening = Date 2026 2 6, ev_closing = Date 2026 2 22,
                         ev_type = ''winter'', ev_location = ''Milan-Cortina''\<rparr>"
    using assms(2) by (simp add: bundled_events)
  have "date_less today (ev_opening first)" using assms(3) by simp
  then have t: "toordinal today < 739653"
    using assms(1) by (simp add: first schedule_order schedule_ordinals)
  show ?thesis
    using t
    by (simp add: calculate_days_until_unfold get_next_olympics_table[OF assms(1)]
                  first days_between_def schedule_ordinals)
qed

theorem days_until_before_every_opening_witness:
  "valid_date (Date 2025 1 1) \<and>
   calculate_days_until (Date 2025 1 1) (Date 2025 1 1) =
     Inr (401, False,
          Some \<lparr>ev_opening = Date 2026 2 6, ev_closing = Date 2026 2 22,
                ev_type = ''winter'', ev_location = ''Milan-Cortina''\<rparr>,
          ''opening'')"
proof -
  have v: "valid_date (Date 2025 1 1)"
    by (simp add: valid_date_def days_in_month_def is_leap_def)
  have b: "\<forall>e \<in> set (\<lparr>ev_opening = Date 2026 2 6, ev_closing = Date 2026 2 22,
                         ev_type = ''winter'', ev_location = ''Milan-Cortina''\<rparr> #
     [\<lparr>ev_opening = Date 2028 7 14, ev_closing = Date 2028 7 30, ev_type = ''summer'', ev_location = ''Los Angeles''\<rparr>,
      \<lparr>ev_opening = Date 2030 2 8, ev_closing = Date 2030 2 24, ev_type = ''winter'', ev_location = ''TBD''\<rparr>,
      \<lparr>ev_opening = Date 2032 7 23, ev_closing = Date 2032 8 8, ev_type = ''summer'', ev_location = ''Brisbane''\<rparr>]).
        date_less (Date 2025 1 1) (ev_opening e)"
    by (simp add: date_less_def)
  have d: "days_between (Date 2026 2 6) (Date 2025 1 1) = 401"
    by (simp add: days_between_def toordinal_def days_before_year_def days_before_month_def is_leap_def)
  show ?thesis
    using days_until_before_every_opening[OF v bundled_events b] v d by simp
qed

text \<open>
  C2. When today lies in the closed interval from the opening to the closing date of an
  event of the bundled schedule, \<open>_calculate_days_until\<close> returns the countdown
  type \<open>closing\<close>, \<open>is_active\<close> true and the number of days from today to that event's
  closing date, which is not negative.
\<close>

theorem days_until_during_games:
  assumes "valid_date today"
      and "olympics_events OLYMPICS_DATES = Inr evs"
      and "e \<in> set evs"
      and "date_le (ev_opening e) today" and "date_le today (ev_closing e)"
  shows "calculate_days_until today today =
           Inr (days_between (ev_closing e) today, True, Some e, ''closing'')
         \<and> 0 \<le> days_between (ev_closing e) today"
proof -
  let ?milan = "\<lparr>ev_opening = Date 2026 2 6, ev_closing = Date 2026 2 22,
                 ev_type = ''winter'', ev_location = ''Milan-Cortina''\<rparr>"
  let ?la = "\<lparr>ev_opening = Date 2028 7 14, ev_closing = Date 2028 7 30,
              ev_type = ''summer'', ev_location = ''Los Angeles''\<rparr>"
  let ?tbd = "\<lparr>ev_opening = Date 2030 2 8, ev_closing = Date 2030 2 24,
               ev_type = ''winter'', ev_location = ''TBD''\<rparr>"
  let ?brisbane = "\<lparr>ev_opening = Date 2032 7 23, ev_closing = Date 2032 8 8,
                    ev_type = ''summer'', ev_location = ''Brisbane''\<rparr>"
  have evs: "evs = [?milan, ?la, ?tbd, ?brisbane]"
    using assms(2) by (simp add: bundled_events)
  have "e = ?milan \<or> e = ?la \<or> e = ?tbd \<or> e = ?brisbane"
    using assms(3) unfolding evs by simp
  then show ?thesis
  proof (elim disjE)
    assume e: "e = ?milan"
    have "739653 \<le> toordinal today" "toordinal today \<le> 739669"
      using assms(1,4,5) by (simp_all add: e schedule_order schedule_ordinals)
    then show ?thesis
      by (simp add: calculate_days_until_unfold get_next_olympics_table[OF assms(1)]
                    e days_between_def schedule_ordinals)
  next
    assume e: "e = ?la"
    have "740542 \<le> toordinal today" "toordinal today \<le> 740558"
      using assms(1,4,5) by (simp_all add: e schedule_order schedule_ordinals)
    then show ?thesis
      by (simp add: calculate_days_until_unfold get_next_olympics_table[OF assms(1)]
                    e days_between_def schedule_ordinals)
  next
    assume e: "e = ?tbd"
    have "741116 \<le> toordinal today" "toordinal today \<le> 741132"
      using assms(1,4,5) by (simp_all add: e schedule_order schedule_ordinals)
    then show ?thesis
      by (simp add: calculate_days_until_unfold get_next_olympics_table[OF assms(1)]
                    e days_between_def schedule_ordinals)
  next
    assume e: "e = ?brisbane"
    have "742012 \<le> toordinal today" "toordinal today \<le> 742028"
      using assms(1,4,5) by (simp_all add: e schedule_order schedule_ordinals)
    then show ?thesis
      by (simp add: calculate_days_until_unfold get_next_olympics_table[OF assms(1)]
                    e days_between_def schedule_ordinals)
  qed
qed

theorem days_until_during_games_witness:
  "valid_date (Date 2028 7 20) \<and>
   calculate_days_until (Date 2028 7 20) (Date 2028 7 20) =
     Inr (10, True,
          Some \<lparr>ev_opening = Date 2028 7 14, ev_closing = Date 2028 7 30,
                ev_type = ''summer'', ev_location = ''Los Angeles''\<rparr>,
          ''closing'')"
proof -
  have v: "valid_date (Date 2028 7 20)"
    by (simp add: valid_date_def days_in_month_def is_leap_def)
  have m: "\<lparr>ev_opening = Date 2028 7 14, ev_closing = Date 2028 7 30,
            ev_type = ''summer'', ev_location = ''Los Angeles''\<rparr> \<in> set
     [\<lparr>ev_opening = Date 2026 2 6, ev_closing = Date 2026 2 22, ev_type = ''winter'', ev_location = ''Milan-Cortina''\<rparr>,
      \<lparr>ev_opening = Date 2028 7 14, ev_closing = Date 2028 7 30, ev_type = ''summer'', ev_location = ''Los Angeles''\<rparr>,
      \<lparr>ev_opening = Date 2030 2 8, ev_closing = Date 2030 2 24, ev_type = ''winter'', ev_location = ''TBD''\<rparr>,
      \<lparr>ev_opening = Date 2032 7 23, ev_closing = Date 2032 8 8, ev_type = ''summer'', ev_location = ''Brisbane''\<rparr>]"
    by simp
  have o: "date_le (ev_opening \<lparr>ev_opening = Date 2028 7 14, ev_closing = Date 2028 7 30,
            ev_type = ''summer'', ev_location = ''Los Angeles''\<rparr>) (Date 2028 7 20)"
    by (simp add: date_le_def date_less_def)
  have c: "date_le (Date 2028 7 20) (ev_closing \<lparr>ev_opening = Date 2028 7 14, ev_closing = Date 2028 7 30,
            ev_type = ''summer'', ev_location = ''Los Angeles''\<rparr>)"
    by (simp add: date_le_def date_less_def)
  have d: "days_between (Date 2028 7 30) (Date 2028 7 20) = 10"
    by (simp add: days_between_def toordinal_def)
  show ?thesis
    using days_until_during_games[OF v bundled_events m o c] v d by simp
qed

text \<open>
  On the closing day of the 2026 games, which is not after the last closing date, the
  returned difference is zero: outside the fallback the difference need not be positive.
\<close>

theorem closing_day_is_zero_outside_fallback:
  "calculate_days_until (Date 2026 2 22) (Date 2026 2 22) =
     Inr (0, True,
          Some \<lparr>ev_opening = Date 2026 2 6, ev_closing = Date 2026 2 22,
                ev_type = ''winter'', ev_location = ''Milan-Cortina''\<rparr>,
          ''closing'')
   \<and> \<not> date_less (Date 2032 8 8) (Date 2026 2 22)"
  by (simp add: calculate_days_until_def calculate_days_until_on_def get_next_olympics_on_def
        bundled_events date_less_def date_le_def days_between_def)

text \<open>
  C3, as amended. When today is strictly after the last closing date of the bundled
  schedule, \<open>_calculate_days_until\<close> selects the last event with the countdown type
  \<open>opening\<close> and \<open>is_active\<close> false, and returns the number of days from today to that
  event's opening, which is then negative. On every other day the returned difference
  is zero or positive, and it is zero exactly on the closing day of an event.
\<close>

theorem days_until_sign:
  assumes "valid_date today"
      and "olympics_events OLYMPICS_DATES = Inr evs"
  shows "(date_less (ev_closing (last evs)) today \<longrightarrow>
            calculate_days_until today today =
              Inr (days_between (ev_opening (last evs)) today, False, Some (last evs), ''opening'')
            \<and> days_between (ev_opening (last evs)) today < 0)
       \<and> (\<not> date_less (ev_closing (last evs)) today \<longrightarrow>
            (\<exists>days is_active info ctype.
               calculate_days_until today today = Inr (days, is_active, info, ctype)
               \<and> 0 \<le> days
               \<and> (days = 0 \<longleftrightarrow> (\<exists>e \<in> set evs. today = ev_closing e))))"
proof -
  have evs: "evs =
     [\<lparr>ev_opening = Date 2026 2 6, ev_closing = Date 2026 2 22, ev_type = ''winter'', ev_location = ''Milan-Cortina''\<rparr>,
      \<lparr>ev_opening = Date 2028 7 14, ev_closing = Date 2028 7 30, ev_type = ''summer'', ev_location = ''Los Angeles''\<rparr>,
      \<lparr>ev_opening = Date 2030 2 8, ev_closing = Date 2030 2 24, ev_type = ''winter'', ev_location = ''TBD''\<rparr>,
      \<lparr>ev_opening = Date 2032 7 23, ev_closing = Date 2032 8 8, ev_type = ''summer'', ev_location = ''Brisbane''\<rparr>]"
    using assms(2) by (simp add: bundled_events)
  have eq: "today = d \<longleftrightarrow> toordinal today = toordinal d" if "valid_date d" for d
    using date_le_iff_toordinal[OF assms(1) that] date_less_iff_toordinal[OF assms(1) that]
    unfolding date_le_def by auto
  note defs = calculate_days_until_unfold get_next_olympics_table[OF assms(1)]
    evs days_between_def schedule_ordinals
    date_less_iff_toordinal[OF schedule_valid(8) assms(1)]
    eq[OF schedule_valid(2)] eq[OF schedule_valid(4)] eq[OF schedule_valid(6)]
    eq[OF schedule_valid(8)]
  consider (a) "toordinal today \<le> 739669"
    | (b) "739669 < toordinal today" "toordinal today \<le> 740558"
    | (c) "740558 < toordinal today" "toordinal today \<le> 741132"
    | (d) "741132 < toordinal today" "toordinal today \<le> 742028"
    | (e) "742028 < toordinal today"
    by linarith
  then show ?thesis
  proof cases
    case a
    then show ?thesis by (cases "739653 \<le> toordinal today") (auto simp: defs)
  next
    case b
    then show ?thesis by (cases "740542 \<le> toordinal today") (auto simp: defs)
  next
    case c
    then show ?thesis by (cases "741116 \<le> toordinal today") (auto simp: defs)
  next
    case d
    then show ?thesis by (cases "742012 \<le> toordinal today") (auto simp: defs)
  next
    case e
    then show ?thesis by (simp add: defs)
  qed
qed

theorem days_until_sign_witness:
  "valid_date (Date 2033 1 1) \<and> date_less (Date 2032 8 8) (Date 2033 1 1) \<and>
   calculate_days_until (Date 2033 1 1) (Date 2033 1 1) =
     Inr (- 162, False,
          Some \<lparr>ev_opening = Date 2032 7 23, ev_closing = Date 2032 8 8,
                ev_type = ''summer'', ev_location = ''Brisbane''\<rparr>,
          ''opening'') \<and>
   valid_date (Date 2026 2 6) \<and> \<not> date_less (Date 2032 8 8) (Date 2026 2 6) \<and>
   calculate_days_until (Date 2026 2 6) (Date 2026 2 6) =
     Inr (16, True,
          Some \<lparr>ev_opening = Date 2026 2 6, ev_closing = Date 2026 2 22,
                ev_type = ''winter'', ev_location = ''Milan-Cortina''\<rparr>,
          ''closing'')"
proof -
  have v: "valid_date (Date 2033 1 1)"
    by (simp add: valid_date_def days_in_month_def is_leap_def)
  have d: "days_between (Date 2032 7 23) (Date 2033 1 1) = - 162"
    by (simp add: days_between_def toordinal_def days_before_year_def
          days_before_month_def is_leap_def)
  have c: "calculate_days_until (Date 2026 2 6) (Date 2026 2 6) =
     Inr (16, True,
          Some \<lparr>ev_opening = Date 2026 2 6, ev_closing = Date 2026 2 22,
                ev_type = ''winter'', ev_location = ''Milan-Cortina''\<rparr>,
          ''closing'')"
    by (simp add: calculate_days_until_def calculate_days_until_on_def
          get_next_olympics_on_def bundled_events date_less_def date_le_def
          days_between_def toordinal_def)
  show ?thesis
    using days_until_sign[OF v bundled_events]
          days_until_sign[OF schedule_valid(1) bundled_events] v d c schedule_valid(1)
    by (simp add: date_less_def)
qed

section \<open>The text layout\<close>







section \<open>The scaled logo\<close>

lemma py_trunc_le:
  assumes "q < of_int m + 1" "0 \<le> m"
  shows "py_trunc q \<le> m"
proof (cases "0 \<le> q")
  case True
  have "\<lfloor>q\<rfloor> < m + 1" unfolding floor_less_iff using assms(1) by simp
  then show ?thesis using True by (simp add: py_trunc_def)
next
  case False
  then have c: "\<lceil>q\<rceil> \<le> 0" by (simp add: ceiling_le_iff)
  have "py_trunc q = \<lceil>q\<rceil>" using False by (simp add: py_trunc_def)
  then show ?thesis using c assms(2) by linarith
qed

lemma scaled_dimension_le:
  fixes eps :: rat
  assumes rel: "\<forall>x. \<bar>rnd rt x - x\<bar> \<le> eps * \<bar>x\<bar>"
      and eps: "0 \<le> eps" "of_int m * (2 * eps + eps * eps) < 1"
      and pos: "0 < m" "0 < i"
      and s: "s \<le> rnd rt (of_int m / of_int i)"
  shows "py_trunc (rnd rt (of_int i * s)) \<le> m"
proof -
  define x :: rat where "x = of_int i * s"
  have m1: "(1::rat) \<le> of_int m" using pos(1) by simp
  have c0: "0 \<le> 2 * eps + eps * eps" using eps(1) by simp
  have "1 * (2 * eps + eps * eps) \<le> of_int m * (2 * eps + eps * eps)"
    by (rule mult_right_mono[OF m1 c0])
  then have e1: "2 * eps + eps * eps < 1" using eps(2) by simp
  have eps1: "eps < 1"
  proof (rule ccontr)
    assume "\<not> eps < 1"
    then have "1 \<le> eps" by simp
    then have "1 \<le> 2 * eps + eps * eps" using eps(1) by (simp add: add_increasing2)
    then show False using e1 by simp
  qed
  have up: "rnd rt y \<le> y + eps * \<bar>y\<bar>" for y
    using rel[rule_format, of y] by (simp add: abs_le_iff)
  have "rnd rt x < of_int m + 1"
  proof (cases "0 \<le> x")
    case False
    then have "x + eps * \<bar>x\<bar> = x * (1 - eps)" by (simp add: algebra_simps)
    also have "\<dots> \<le> 0" using False eps1 by (intro mult_nonpos_nonneg) simp_all
    finally have "rnd rt x \<le> 0" using up[of x] by simp
    then show ?thesis using pos(1) by simp
  next
    case True
    define q :: rat where "q = of_int m / of_int i"
    have q0: "0 \<le> q" unfolding q_def using pos by simp
    have "s \<le> rnd rt q" using s by (simp add: q_def)
    then have "s \<le> q + eps * \<bar>q\<bar>" using up[of q] by linarith
    also have "\<dots> = q * (1 + eps)" using q0 by (simp add: algebra_simps)
    finally have "x \<le> of_int i * (q * (1 + eps))"
      unfolding x_def using pos(2) by (intro mult_left_mono) simp_all
    also have "\<dots> = of_int m * (1 + eps)" unfolding q_def using pos(2) by simp
    finally have x: "x \<le> of_int m * (1 + eps)" .
    have "rnd rt x \<le> x + eps * \<bar>x\<bar>" by (rule up)
    also have "\<dots> = x * (1 + eps)" using True by (simp add: algebra_simps)
    also have "\<dots> \<le> (of_int m * (1 + eps)) * (1 + eps)"
      using x eps(1) by (intro mult_right_mono) simp_all
    also have "\<dots> = of_int m + of_int m * (2 * eps + eps * eps)"
      by (simp add: algebra_simps)
    also have "\<dots> < of_int m + 1" using eps(2) by simp
    finally show ?thesis .
  qed
  then show ?thesis unfolding x_def using pos(1) by (intro py_trunc_le) simp_all
qed


text \<open>
  C8. \<open>rnd\<close> is the rounding of the machine's float operations, of relative error at
  most \<open>eps\<close>; for binary64, where \<open>eps\<close> is 2 to the power -53, the side conditions
  hold for every maximum below 2 to the power 51. For positive maximum width and height and a loaded logo of
  positive size, \<open>_get_logo_image\<close> asks \<open>resize\<close> for both dimensions of the logo
  times the single ratio \<open>min(width / img_width, height / img_height)\<close>, truncated, and
  neither exceeds its maximum; the result is the logo at that size, or the exception
  \<open>resize\<close> raises.
\<close>

theorem logo_scaled_within_bounds:
  fixes eps :: rat
  assumes "\<forall>x. \<bar>rnd rt x - x\<bar> \<le> eps * \<bar>x\<bar>" and "0 \<le> eps"
      and "of_int w * (2 * eps + eps * eps) < 1" and "of_int h * (2 * eps + eps * eps) < 1"
      and "0 < w" and "0 < h"
      and "logo_image self = Some img" and "img_size img = (iw, ih)"
      and "0 < iw" and "0 < ih"
      and "scale_ratio = min (rnd rt (of_int w / of_int iw)) (rnd rt (of_int h / of_int ih))"
      and "new_width = py_trunc (rnd rt (of_int iw * scale_ratio))"
      and "new_height = py_trunc (rnd rt (of_int ih * scale_ratio))"
  shows "new_width \<le> w \<and> new_height \<le> h \<and>
         get_logo_image rt self w h =
           (case pil_raises rt (Resize img (new_width, new_height)) of
              Some e \<Rightarrow> Inl e
            | None \<Rightarrow> Inr (img\<lparr>img_size := (new_width, new_height),
                                img_pixels := Resampled (img_pixels img)\<rparr>))"
proof -
  have sw: "scale_ratio \<le> rnd rt (of_int w / of_int iw)"
   and sh: "scale_ratio \<le> rnd rt (of_int h / of_int ih)"
    using assms(11) by simp_all
  have nw: "new_width \<le> w"
    unfolding assms(12) by (rule scaled_dimension_le[OF assms(1,2,3,5,9) sw])
  have nh: "new_height \<le> h"
    unfolding assms(13) by (rule scaled_dimension_le[OF assms(1,2,4,6,10) sh])
  have sz: "scaled_size rt (img_size img) w h = Inr (new_width, new_height)"
    using assms(9,10) by (simp add: scaled_size_def assms(8,11,12,13) Let_def)
  have "get_logo_image rt self w h =
           (case pil_raises rt (Resize img (new_width, new_height)) of
              Some e \<Rightarrow> Inl e
            | None \<Rightarrow> Inr (img\<lparr>img_size := (new_width, new_height),
                                img_pixels := Resampled (img_pixels img)\<rparr>))"
    by (simp add: get_logo_image_def assms(7) sz Let_def split: option.splits)
  then show ?thesis using nw nh by simp
qed

theorem logo_scaled_within_bounds_witness:
  "get_logo_image exact_runtime
     (default_plugin (Some \<lparr>img_size = (300, 100), img_mode = ''RGBA'',
                             img_pixels = Loaded ''logo.png''\<rparr>)) 60 28
   = Inr \<lparr>img_size = (60, 20), img_mode = ''RGBA'',
          img_pixels = Resampled (Loaded ''logo.png'')\<rparr>"
proof -
  let ?img = "\<lparr>img_size = (300, 100), img_mode = ''RGBA'', img_pixels = Loaded ''logo.png''\<rparr>"
  have r: "\<forall>x. \<bar>rnd exact_runtime x - x\<bar> \<le> 0 * \<bar>x\<bar>"
    by (simp add: exact_runtime_def)
  have s: "(1 / 5 :: rat) =
           min (rnd exact_runtime (of_int 60 / of_int 300))
               (rnd exact_runtime (of_int 28 / of_int 100))"
    by (simp add: exact_runtime_def)
  have a: "(60::int) = py_trunc (rnd exact_runtime (of_int 300 * (1 / 5)))"
    by (simp add: exact_runtime_def py_trunc_def)
  have b: "(20::int) = py_trunc (rnd exact_runtime (of_int 100 * (1 / 5)))"
    by (simp add: exact_runtime_def py_trunc_def)
  have l: "logo_image (default_plugin (Some ?img)) = Some ?img"
    by (simp add: default_plugin_def)
  show ?thesis
    using logo_scaled_within_bounds[of exact_runtime 0 60 28 "default_plugin (Some ?img)"
            ?img 300 100 "1 / 5" 60 20, OF r _ _ _ _ _ l _ _ _ s a b]
    by (simp add: exact_runtime_def)
qed

section \<open>\<open>update\<close>\<close>

text \<open>
  C9. If \<open>_calculate_days_until\<close> raises, \<open>update\<close> leaves \<open>days_until\<close>,
  \<open>is_olympics_active\<close>, \<open>current_olympics\<close>, \<open>countdown_type\<close> and
  \<open>last_calculated_date\<close> as they were. The schedule is a parameter here, since on the
  bundled one the calculation does not raise.
\<close>

theorem update_keeps_state_on_error:
  assumes "calculate_days_until_on sched today1 today2 = Inl e"
  shows "days_until (fst (update_on sched today1 today2 today3 self)) = days_until self
       \<and> is_olympics_active (fst (update_on sched today1 today2 today3 self))
           = is_olympics_active self
       \<and> current_olympics (fst (update_on sched today1 today2 today3 self))
           = current_olympics self
       \<and> countdown_type (fst (update_on sched today1 today2 today3 self))
           = countdown_type self
       \<and> last_calculated_date (fst (update_on sched today1 today2 today3 self))
           = last_calculated_date self"
  using assms by (simp add: update_on_def)

theorem update_keeps_state_on_error_witness:
  "calculate_days_until_on
     [(2026, 2, 30, ''winter'', ''Milan-Cortina''), (2026, 3, 1, ''winter'', ''Milan-Cortina'')]
     (Date 2026 1 1) (Date 2026 1 1) = Inl ValueError
   \<and> days_until (fst (update_on
         [(2026, 2, 30, ''winter'', ''Milan-Cortina''), (2026, 3, 1, ''winter'', ''Milan-Cortina'')]
         (Date 2026 1 1) (Date 2026 1 1) (Date 2026 1 1) (default_plugin None))) = 0
   \<and> current_olympics (fst (update_on
         [(2026, 2, 30, ''winter'', ''Milan-Cortina''), (2026, 3, 1, ''winter'', ''Milan-Cortina'')]
         (Date 2026 1 1) (Date 2026 1 1) (Date 2026 1 1) (default_plugin None))) = None"
proof -
  have r: "calculate_days_until_on
     [(2026, 2, 30, ''winter'', ''Milan-Cortina''), (2026, 3, 1, ''winter'', ''Milan-Cortina'')]
     (Date 2026 1 1) (Date 2026 1 1) = Inl ValueError"
    by (simp add: calculate_days_until_on_def get_next_olympics_on_def mk_date_def
          valid_date_def days_in_month_def is_leap_def)
  show ?thesis
    using update_keeps_state_on_error[OF r, of "Date 2026 1 1" "default_plugin None"] r
    by (simp add: default_plugin_def)
qed

lemma get_next_olympics_some:
  "\<exists>ev active. get_next_olympics today = Inr (Some ev, active)"
  by (auto simp add: get_next_olympics_def get_next_olympics_on_def bundled_events
        simp del: find_event.simps split: option.split)

lemma calculate_days_until_some:
  "\<exists>days active ev ctype. calculate_days_until today1 today2 = Inr (days, active, Some ev, ctype)"
proof -
  obtain ev active where "get_next_olympics today1 = Inr (Some ev, active)"
    using get_next_olympics_some by blast
  then show ?thesis by (auto simp: calculate_days_until_unfold)
qed

lemma update_finds_olympics:
  "current_olympics (fst (update today1 today2 today3 self)) \<noteq> None
   \<and> snd (update today1 today2 today3 self) = None"
proof -
  obtain days active ev ctype where
    "calculate_days_until_on OLYMPICS_DATES today1 today2 = Inr (days, active, Some ev, ctype)"
    using calculate_days_until_some[of today1 today2]
    unfolding calculate_days_until_def by blast
  then show ?thesis by (simp add: update_def update_on_def Let_def)
qed


lemma init_default:
  "init exact_runtime no_files (\<lambda>k. None) =
     Inr ((default_plugin None)
            \<lparr>logger := [Debug ''Olympics logo image not found, will use programmatic drawing'',
                        Info ''Olympics countdown plugin initialized'']\<rparr>)"
  by (simp add: init_def parse_color_def load_logo_image_def no_files_def possible_names_def
        default_plugin_def exact_runtime_def)

text \<open>
  C10 says that, the bundled schedule being non-empty and even, \<open>_get_next_olympics\<close>
  and \<open>_calculate_days_until\<close> never return a \<open>None\<close> event, so that the branch of
  \<open>display\<close> drawing \<open>NO OLYMPICS FOUND\<close> cannot be reached. The first half holds
  (\<open>get_next_olympics_some\<close>, \<open>calculate_days_until_some\<close>, \<open>update_finds_olympics\<close>).
  But \<open>display\<close> does not call \<open>update\<close> first: on a plugin fresh from \<open>__init__\<close> its
  guard \<open>not hasattr(self, 'days_until')\<close> is false, \<open>current_olympics\<close> is still \<open>None\<close>,
  and the text drawn and stored is \<open>NO OLYMPICS FOUND\<close>.
\<close>

theorem display_before_update_draws_no_olympics_found:
  "(case init exact_runtime no_files (\<lambda>k. None) of
      Inl e \<Rightarrow> None
    | Inr self \<Rightarrow>
        Some (current_olympics self,
              drawn_texts (fst (snd (display exact_runtime (panel (\<lambda>cs c. None))
                     (Date 2026 11 3) (Date 2026 11 3) (Date 2026 11 3) False self []))),
              last_displayed_message (fst (display exact_runtime (panel (\<lambda>cs c. None))
                     (Date 2026 11 3) (Date 2026 11 3) (Date 2026 11 3) False self []))))
   = Some (None, [''NO OLYMPICS'', ''FOUND''], Some ''NO OLYMPICS FOUND'')"
  unfolding init_default
  by (simp add: default_plugin_def display_def display_body_def
        hasattr_days_until_def message_and_lines_def call_dm_def panel_def panel_fonts_def
        get_logo_image_def draw_olympics_rings_programmatic_def exact_runtime_def
        calculate_text_layout_def font_options_def max_line_width_def line_width_def
        test_text_def font_line_height_def py_enumerate_def Let_def ring_colors_def
        ring_def line_call_def)

section \<open>\<open>validate_config\<close>\<close>

lemma ints_of_PInt: "ints_of p (map PInt is) = Inr is"
  by (induction "is") simp_all

lemma validate_config_after_init:
  assumes "init rt files config = Inr self"
  shows "\<exists>b. validate_config rt parent_ok self = Inr b"
proof -
  define raw where
    "raw = (case config ''text_color'' of
              None \<Rightarrow> PList [PInt 255, PInt 255, PInt 255] | Some v \<Rightarrow> v)"
  have color: "parse_color (int_of_str rt) raw = Inr (text_color self)"
    using assms unfolding init_def raw_def
    by (auto split: sum.splits prod.splits)
  show ?thesis
  proof (cases "text_color self")
    case (PTuple cs)
    have "(\<exists>is. ints_of (int_of_str rt) cs = Inr is)
          \<or> ints_of (int_of_str rt) cs = Inl ValueError
          \<or> ints_of (int_of_str rt) cs = Inl TypeError"
      using color PTuple unfolding parse_color_def
      by (cases raw) (auto simp: ints_of_PInt split: sum.splits if_splits)
    then show ?thesis
      by (auto simp: validate_config_def PTuple)
  qed (auto simp: validate_config_def)
qed

lemma accepted_logo_size:
  "(is_int_or_float v \<and> \<not> le_zero v) \<longleftrightarrow> (positive_number v \<or> v = PFloat NaN)"
proof (cases v)
  case (PFloat f)
  then show ?thesis by (cases f) (auto simp: positive_number_def)
qed (auto simp: positive_number_def)

lemma validate_config_true_iff:
  assumes "init rt files config = Inr self"
  shows "validate_config rt parent_ok self = Inr True \<longleftrightarrow>
           parent_ok
           \<and> (\<exists>r g b. text_color self = PTuple [PInt r, PInt g, PInt b]
                 \<and> 0 \<le> r \<and> r \<le> 255 \<and> 0 \<le> g \<and> g \<le> 255 \<and> 0 \<le> b \<and> b \<le> 255)
           \<and> (logo_size self = PNone \<or> positive_number (logo_size self)
                \<or> logo_size self = PFloat NaN)"
proof -
  define raw where
    "raw = (case config ''text_color'' of
              None \<Rightarrow> PList [PInt 255, PInt 255, PInt 255] | Some v \<Rightarrow> v)"
  have color: "parse_color (int_of_str rt) raw = Inr (text_color self)"
    using assms unfolding init_def raw_def
    by (auto split: sum.splits prod.splits)
  have logo: "(logo_size self \<noteq> PNone \<and>
                 (\<not> is_int_or_float (logo_size self) \<or> le_zero (logo_size self)))
              \<longleftrightarrow> \<not> (logo_size self = PNone \<or> positive_number (logo_size self)
                       \<or> logo_size self = PFloat NaN)"
    using accepted_logo_size[of "logo_size self"] by (auto simp: positive_number_def)
  show ?thesis
  proof (cases "text_color self")
    case (PTuple cs)
    have shape: "(\<exists>is. cs = map PInt is)
          \<or> ints_of (int_of_str rt) cs = Inl ValueError
          \<or> ints_of (int_of_str rt) cs = Inl TypeError"
      using color PTuple unfolding parse_color_def
      by (cases raw) (auto split: sum.splits if_splits)
    then show ?thesis
    proof (elim disjE exE)
      fix "is" assume cs: "cs = map PInt is"
      have three: "length is = 3 \<longleftrightarrow> (\<exists>r g b. is = [r, g, b])"
        by (auto simp: length_Suc_conv numeral_3_eq_3)
      show ?thesis
        using logo three
        by (auto simp: validate_config_def PTuple cs ints_of_PInt)
    qed (auto simp: validate_config_def PTuple)
  qed (simp_all add: validate_config_def)
qed

text \<open>
  C7 says that \<open>validate_config\<close> returns false, and does not raise, when \<open>text_color\<close>
  is not a triple of numbers from 0 to 255 or when a \<open>logo_size\<close> is given that is not
  a positive number, and true otherwise. On the plugins \<open>__init__\<close> builds it never
  raises (\<open>validate_config_after_init\<close>) and it accepts exactly the triples of ints
  in range with no \<open>logo_size\<close>, a positive one, or NaN (\<open>validate_config_true_iff\<close>).
  NaN is where the code departs from the claim: it is a float and \<open>logo_size <= 0\<close> is
  false for it, so the configuration is accepted although NaN is not a positive number.
\<close>

theorem validate_config_accepts_nan_logo_size:
  "(case init exact_runtime no_files [''logo_size'' \<mapsto> PFloat NaN] of
      Inl e \<Rightarrow> Inl e
    | Inr self \<Rightarrow> validate_config exact_runtime True self) = Inr True
   \<and> \<not> positive_number (PFloat NaN)"
  by (simp add: init_def parse_color_def load_logo_image_def no_files_def possible_names_def
        exact_runtime_def validate_config_def positive_number_def)

theorem validate_config_accepts_nan_logo_size_witness:
  "init exact_runtime no_files [''logo_size'' \<mapsto> PFloat NaN] =
     Inr ((default_plugin None)
            \<lparr>logo_size := PFloat NaN,
             logger := [Debug ''Olympics logo image not found, will use programmatic drawing'',
                        Info ''Olympics countdown plugin initialized'']\<rparr>)
   \<and> validate_config exact_runtime True
         ((default_plugin None)
            \<lparr>logo_size := PFloat NaN,
             logger := [Debug ''Olympics logo image not found, will use programmatic drawing'',
                        Info ''Olympics countdown plugin initialized'']\<rparr>) = Inr True"
proof -
  have i: "init exact_runtime no_files [''logo_size'' \<mapsto> PFloat NaN] =
     Inr ((default_plugin None)
            \<lparr>logo_size := PFloat NaN,
             logger := [Debug ''Olympics logo image not found, will use programmatic drawing'',
                        Info ''Olympics countdown plugin initialized'']\<rparr>)"
    by (simp add: init_def parse_color_def load_logo_image_def no_files_def
          possible_names_def default_plugin_def exact_runtime_def)
  show ?thesis
    using validate_config_accepts_nan_logo_size unfolding i by simp
qed

section \<open>\<open>display\<close>\<close>

lemma draw_lines_all:
  assumes "\<forall>cs c. dm_raises dm cs c = None"
  shows "draw_lines dm self lay center_x pairs calls =
           (None, calls @ map (\<lambda>(i, line). line_call dm self lay center_x i line) pairs)"
  using assms
  by (induction pairs arbitrary: calls) (auto simp: call_dm_def)

lemma display_body_unfold:
  "display_body rt dm today1 today2 today3 force_clear self calls =
     (if \<not> force_clear \<and> last_displayed_message self = Some (fst (message_and_lines self))
      then (None, self, calls)
      else case dm_raises dm calls Clear of
        Some e \<Rightarrow> (Some e, self, calls @ [Clear])
      | None \<Rightarrow>
       (case get_logo_image rt self (dm_width dm div 2 - 4) (dm_height dm - 4) of
          Inl e \<Rightarrow> (Some e, self, calls @ [Clear])
        | Inr logo \<Rightarrow>
         (case dm_raises dm (calls @ [Clear]) (Paste logo (2, 2) (img_mode logo = ''RGBA'')) of
            Some e \<Rightarrow>
              (Some e, self, calls @ [Clear, Paste logo (2, 2) (img_mode logo = ''RGBA'')])
          | None \<Rightarrow>
           (case calculate_text_layout rt dm (dm_width dm) (dm_height dm)
                   (snd (message_and_lines self)) of
              Inl e \<Rightarrow>
                (Some e, self, calls @ [Clear, Paste logo (2, 2) (img_mode logo = ''RGBA'')])
            | Inr lay \<Rightarrow>
             (case draw_lines dm self lay
                     (dm_width dm div 2 + (dm_width dm - dm_width dm div 2) div 2)
                     (py_enumerate (snd (message_and_lines self)))
                     (calls @ [Clear, Paste logo (2, 2) (img_mode logo = ''RGBA'')]) of
                (Some e, calls3) \<Rightarrow> (Some e, self, calls3)
              | (None, calls3) \<Rightarrow>
               (case dm_raises dm calls3 UpdateDisplay of
                  Some e \<Rightarrow> (Some e, self, calls3 @ [UpdateDisplay])
                | None \<Rightarrow>
                   (None,
                    self\<lparr>last_displayed_message := Some (fst (message_and_lines self)),
                         logger := logger self
                           @ [Debug (''Displayed: '' @ fst (message_and_lines self))]\<rparr>,
                    calls3 @ [UpdateDisplay])))))))"
  by (simp add: display_body_def hasattr_days_until_def split_beta Let_def call_dm_def
        split: option.split sum.split prod.split)

lemma display_skip:
  assumes "\<not> force_clear"
      and "last_displayed_message self = Some (fst (message_and_lines self))"
  shows "display rt dm today1 today2 today3 force_clear self calls = (self, calls, None)"
  using assms by (simp add: display_def display_body_unfold)

lemma display_redraw:
  assumes "force_clear \<or> last_displayed_message self \<noteq> Some (fst (message_and_lines self))"
      and "\<forall>cs c. dm_raises dm cs c = None"
      and "get_logo_image rt self (dm_width dm div 2 - 4) (dm_height dm - 4) = Inr logo"
      and "calculate_text_layout rt dm (dm_width dm) (dm_height dm)
             (snd (message_and_lines self)) = Inr lay"
  shows "display rt dm today1 today2 today3 force_clear self calls =
     (self\<lparr>last_displayed_message := Some (fst (message_and_lines self)),
           logger := logger self @ [Debug (''Displayed: '' @ fst (message_and_lines self))]\<rparr>,
      calls @ [Clear, Paste logo (2, 2) (img_mode logo = ''RGBA'')]
        @ map (\<lambda>(i, line). line_call dm self lay
                 (dm_width dm div 2 + (dm_width dm - dm_width dm div 2) div 2) i line)
              (py_enumerate (snd (message_and_lines self)))
        @ [UpdateDisplay],
      None)"
  using assms(1)
  by (auto simp: display_def display_body_unfold assms(2,3,4) draw_lines_all[OF assms(2)])

lemma display_body_keeps_plugin_on_error:
  "fst (display_body rt dm today1 today2 today3 force_clear self calls) = Some e \<Longrightarrow>
   fst (snd (display_body rt dm today1 today2 today3 force_clear self calls)) = self"
proof -
  have "fst (display_body rt dm today1 today2 today3 force_clear self calls) = None
        \<or> fst (snd (display_body rt dm today1 today2 today3 force_clear self calls)) = self"
    unfolding display_body_unfold
    by (simp split: option.split sum.split prod.split)
  then show "fst (display_body rt dm today1 today2 today3 force_clear self calls) = Some e \<Longrightarrow>
   fst (snd (display_body rt dm today1 today2 today3 force_clear self calls)) = self"
    by auto
qed

lemma display_failed_redraw:
  assumes "fst (display_body rt dm today1 today2 today3 force_clear self calls) = Some e"
  shows "last_displayed_message (fst (display rt dm today1 today2 today3 force_clear self calls))
          = last_displayed_message self"
proof -
  obtain calls' where
    "display_body rt dm today1 today2 today3 force_clear self calls = (Some e, self, calls')"
    using assms display_body_keeps_plugin_on_error[OF assms]
    by (cases "display_body rt dm today1 today2 today3 force_clear self calls") auto
  then show ?thesis by (simp add: display_def)
qed

lemma str_int_619: "str_int 619 = ''619''"
  by code_simp

lemma upper_summer: "upper ''summer'' = ''SUMMER''"
  by code_simp

text \<open>
  C5, as amended. When \<open>force_clear\<close> is false and the computed message equals
  \<open>last_displayed_message\<close>, \<open>display\<close> returns with the plugin and the display calls
  unchanged. When the message differs or \<open>force_clear\<close> is true and no step of the
  redraw raises (no host call, and the logo and the layout are obtained), the full
  redraw is issued, which is \<open>clear\<close>, the logo pasted, one \<open>draw_text\<close> per line and
  \<open>update_display\<close>, and \<open>last_displayed_message\<close> becomes the new message. When a
  step raises, \<open>last_displayed_message\<close> stays as it was.
\<close>

theorem display_skips_or_redraws:
  "(\<not> force_clear \<and> last_displayed_message self = Some (fst (message_and_lines self)) \<longrightarrow>
      display rt dm today1 today2 today3 force_clear self calls = (self, calls, None))
   \<and> ((force_clear \<or> last_displayed_message self \<noteq> Some (fst (message_and_lines self)))
        \<and> (\<forall>cs c. dm_raises dm cs c = None)
        \<and> get_logo_image rt self (dm_width dm div 2 - 4) (dm_height dm - 4) = Inr logo
        \<and> calculate_text_layout rt dm (dm_width dm) (dm_height dm)
             (snd (message_and_lines self)) = Inr lay \<longrightarrow>
      display rt dm today1 today2 today3 force_clear self calls =
        (self\<lparr>last_displayed_message := Some (fst (message_and_lines self)),
              logger := logger self
                 @ [Debug (''Displayed: '' @ fst (message_and_lines self))]\<rparr>,
         calls @ [Clear, Paste logo (2, 2) (img_mode logo = ''RGBA'')]
           @ map (\<lambda>(i, line). line_call dm self lay
                    (dm_width dm div 2 + (dm_width dm - dm_width dm div 2) div 2) i line)
                 (py_enumerate (snd (message_and_lines self)))
           @ [UpdateDisplay],
         None))
   \<and> (fst (display_body rt dm today1 today2 today3 force_clear self calls) \<noteq> None \<longrightarrow>
        last_displayed_message
          (fst (display rt dm today1 today2 today3 force_clear self calls))
        = last_displayed_message self)"
  using display_skip[of force_clear self rt dm today1 today2 today3 calls]
        display_redraw[of force_clear self dm rt logo lay today1 today2 today3 calls]
        display_failed_redraw[of rt dm today1 today2 today3 force_clear self calls]
  by blast

lemma counting_plugin_eq:
  "counting_plugin =
     \<lparr>text_color = PTuple [PInt 255, PInt 255, PInt 255], logo_size = PNone,
      days_until = 619, is_olympics_active = False,
      current_olympics =
        Some \<lparr>ev_opening = Date 2028 7 14, ev_closing = Date 2028 7 30,
              ev_type = ''summer'', ev_location = ''Los Angeles''\<rparr>,
      countdown_type = ''opening'', logo_image = None,
      last_calculated_date = Some (Date 2026 11 3), last_displayed_message = None,
      logger = [Info ''Days until summer Olympics Los Angeles opening: 619'']\<rparr>"
proof -
  have c: "calculate_days_until_on OLYMPICS_DATES (Date 2026 11 3) (Date 2026 11 3) =
     Inr (619, False,
          Some \<lparr>ev_opening = Date 2028 7 14, ev_closing = Date 2028 7 30,
                ev_type = ''summer'', ev_location = ''Los Angeles''\<rparr>,
          ''opening'')"
    by (simp add: calculate_days_until_on_def get_next_olympics_on_def bundled_events
          date_less_def date_le_def days_between_def toordinal_def days_before_year_def
          days_before_month_def is_leap_def)
  show ?thesis
    by (simp add: counting_plugin_def update_def update_on_def c default_plugin_def
          str_int_619)
qed

lemma counting_message:
  "message_and_lines counting_plugin =
     (''619 DAYS UNTIL SUMMER OLYMPICS'', [''619'', ''DAYS UNTIL'', ''SUMMER'', ''OLYMPICS''])"
  by (simp add: counting_plugin_eq message_and_lines_def str_int_619 upper_summer)

lemma counting_logo:
  "get_logo_image exact_runtime counting_plugin 60 28 =
     Inr \<lparr>img_size = (60, 28), img_mode = ''RGBA'',
          img_pixels = Ellipses
            [((22, 6, 30, 14), (0, 129, 200), 1), ((28, 6, 36, 14), (0, 0, 0), 1),
             ((34, 6, 42, 14), (255, 20, 24), 1), ((26, 14, 34, 22), (255, 195, 0), 1),
             ((32, 14, 40, 22), (0, 158, 96), 1)]\<rparr>"
  by (simp add: counting_plugin_eq get_logo_image_def draw_olympics_rings_programmatic_def
        exact_runtime_def ring_colors_def ring_def Let_def)

lemma counting_layout:
  "calculate_text_layout exact_runtime (panel raises) 128 32
     [''619'', ''DAYS UNTIL'', ''SUMMER'', ''OLYMPICS'']
   = Inr \<lparr>lay_font = \<lparr>font_name = ''regular'', font_size = Some 8\<rparr>, line_height = 7,
           total_text_height = 28, start_y = 2, use_small_font = False\<rparr>"
  by (simp add: calculate_text_layout_def font_options_def panel_def panel_fonts_def
        exact_runtime_def max_line_width_def line_width_def test_text_def
        font_line_height_def Let_def py_trunc_def)

theorem display_skips_or_redraws_witness:
  "display exact_runtime (panel (\<lambda>cs c. None)) (Date 2026 11 3) (Date 2026 11 3)
     (Date 2026 11 3) False
     (counting_plugin\<lparr>last_displayed_message := Some ''619 DAYS UNTIL SUMMER OLYMPICS''\<rparr>) []
   = (counting_plugin\<lparr>last_displayed_message := Some ''619 DAYS UNTIL SUMMER OLYMPICS''\<rparr>,
      [], None)
   \<and> drawn_texts (fst (snd (display exact_runtime (panel (\<lambda>cs c. None)) (Date 2026 11 3)
         (Date 2026 11 3) (Date 2026 11 3) False counting_plugin [])))
       = [''619'', ''DAYS UNTIL'', ''SUMMER'', ''OLYMPICS'']
   \<and> last_displayed_message (fst (display exact_runtime (panel (\<lambda>cs c. None))
         (Date 2026 11 3) (Date 2026 11 3) (Date 2026 11 3) False counting_plugin []))
       = Some ''619 DAYS UNTIL SUMMER OLYMPICS''
   \<and> last_displayed_message (fst (display exact_runtime (panel (clear_raises RuntimeError))
         (Date 2026 11 3) (Date 2026 11 3) (Date 2026 11 3) False counting_plugin []))
       = None"
proof -
  let ?d = "Date 2026 11 3"
  let ?shown = "counting_plugin\<lparr>last_displayed_message := Some ''619 DAYS UNTIL SUMMER OLYMPICS''\<rparr>"
  let ?logo = "\<lparr>img_size = (60, 28), img_mode = ''RGBA'',
          img_pixels = Ellipses
            [((22, 6, 30, 14), (0, 129, 200), 1), ((28, 6, 36, 14), (0, 0, 0), 1),
             ((34, 6, 42, 14), (255, 20, 24), 1), ((26, 14, 34, 22), (255, 195, 0), 1),
             ((32, 14, 40, 22), (0, 158, 96), 1)]\<rparr>"
  let ?lay = "\<lparr>lay_font = \<lparr>font_name = ''regular'', font_size = Some 8\<rparr>, line_height = 7,
           total_text_height = 28, start_y = 2, use_small_font = False\<rparr>"
  have m': "message_and_lines ?shown = message_and_lines counting_plugin"
    by (cases "current_olympics counting_plugin") (simp_all add: message_and_lines_def)
  have skip: "display exact_runtime (panel (\<lambda>cs c. None)) ?d ?d ?d False ?shown [] = (?shown, [], None)"
    using display_skips_or_redraws[of False ?shown exact_runtime "panel (\<lambda>cs c. None)"
            ?d ?d ?d "[]" ?logo ?lay]
    by (simp add: m' counting_message)
  have nolast: "last_displayed_message counting_plugin = None"
    by (simp add: counting_plugin_eq)
  have redraw: "display exact_runtime (panel (\<lambda>cs c. None)) ?d ?d ?d False counting_plugin [] =
     (counting_plugin\<lparr>last_displayed_message := Some ''619 DAYS UNTIL SUMMER OLYMPICS'',
           logger := logger counting_plugin
              @ [Debug (''Displayed: '' @ ''619 DAYS UNTIL SUMMER OLYMPICS'')]\<rparr>,
      [] @ [Clear, Paste ?logo (2, 2) (img_mode ?logo = ''RGBA'')]
         @ map (\<lambda>(i, line). line_call (panel (\<lambda>cs c. None)) counting_plugin ?lay
                  (dm_width (panel (\<lambda>cs c. None)) div 2
                   + (dm_width (panel (\<lambda>cs c. None))
                      - dm_width (panel (\<lambda>cs c. None)) div 2) div 2) i line)
               (py_enumerate [''619'', ''DAYS UNTIL'', ''SUMMER'', ''OLYMPICS''])
         @ [UpdateDisplay],
      None)"
    using display_skips_or_redraws[of False counting_plugin exact_runtime
            "panel (\<lambda>cs c. None)" ?d ?d ?d "[]" ?logo ?lay]
          counting_logo counting_layout[of "\<lambda>cs c. None"]
    by (simp add: counting_message nolast panel_def)
  have body: "fst (display_body exact_runtime (panel (clear_raises RuntimeError)) ?d ?d ?d
                False counting_plugin []) \<noteq> None"
    by (simp add: display_body_def hasattr_days_until_def counting_message nolast
          call_dm_def panel_def clear_raises_def)
  have failed: "last_displayed_message (fst (display exact_runtime
           (panel (clear_raises RuntimeError)) ?d ?d ?d False counting_plugin [])) = None"
    using display_skips_or_redraws[of False counting_plugin exact_runtime
            "panel (clear_raises RuntimeError)" ?d ?d ?d "[]" ?logo ?lay] body nolast
    by simp
  show ?thesis
    unfolding skip redraw failed
    by (simp add: line_call_def py_enumerate_def panel_def panel_fonts_def)
qed

text \<open>
  A host whose \<open>clear\<close> raises: the message differs from the stored one and
  \<open>force_clear\<close> is true, yet nothing is redrawn and \<open>last_displayed_message\<close> is not set;
  both \<open>clear\<close> calls, the second one the handler's, raise.
\<close>

theorem failed_redraw_leaves_last_message:
  "display exact_runtime (panel (clear_raises RuntimeError)) (Date 2026 11 3)
     (Date 2026 11 3) (Date 2026 11 3) True counting_plugin []
   = (counting_plugin\<lparr>logger := logger counting_plugin
         @ [Error ''Error displaying countdown: '' RuntimeError]\<rparr>,
      [Clear, Clear], None)
   \<and> last_displayed_message counting_plugin = None
   \<and> fst (message_and_lines counting_plugin) = ''619 DAYS UNTIL SUMMER OLYMPICS''"
  by (simp add: display_def display_body_def hasattr_days_until_def counting_message
        call_dm_def panel_def clear_raises_def show_error_def)
     (simp add: counting_plugin_eq)

section \<open>Exceptions\<close>
















end
